theory Spec2Isabelle
  imports Complex_Main "HOL-Library.Mapping" "HOL-Library.Log_Nat"
begin

section \<open>Data model of \<open>optimize_satisfy_early_stopping.py\<close>\<close>

text \<open>
  A score dictionary (\<open>Dict[str, Any]\<close>) is a finite mapping from metric names to
  values; the class never inspects the values, so their type is a parameter.
  A metric is a caller-supplied Python callable applied to a score dictionary: it
  either returns a score or raises. Scores are compared with \<open><\<close> and \<open>>=\<close> only
  and are modelled as real numbers (no NaN).
\<close>

datatype error = KeyError string | TypeError string | OtherError string

type_synonym 'v score_dict = "(string, 'v) mapping"

type_synonym 'v metric = "'v score_dict \<Rightarrow> error + real"

text \<open>
  The object's three attributes. \<open>satisfy_metrics\<close> is a Python dict keyed by
  function objects; it is only ever iterated (\<open>.items()\<close>), so it is kept as the
  list of its (function, threshold) items in iteration order.
\<close>

record 'v OptimizeSatisfyEarlyStopping =
  optimize_metric :: "'v metric"
  satisfy_metrics :: "('v metric \<times> real) list"
  best_dict :: "'v score_dict"

text \<open>\<open>__init__\<close>: \<open>satisfy_metrics=None\<close> becomes the empty dict, \<open>best_dict\<close> starts as \<open>{}\<close>.\<close>

definition init ::
  "'v metric \<Rightarrow> ('v metric \<times> real) list option \<Rightarrow> 'v OptimizeSatisfyEarlyStopping" where
  "init optimize_metric' satisfy_metrics' =
     \<lparr> optimize_metric = optimize_metric',
       satisfy_metrics = (case satisfy_metrics' of None \<Rightarrow> [] | Some d \<Rightarrow> d),
       best_dict = Mapping.empty \<rparr>"

section \<open>The methods\<close>

text \<open>
  \<open>_metric_decreases\<close>: the test \<open>self.best_dict == {}\<close> comes first; otherwise the
  optimize metric is applied to \<open>score_dict\<close>, then to \<open>self.best_dict\<close> (Python
  evaluates the left operand of \<open><\<close> first), and the first failure is raised.
\<close>

definition metric_decreases ::
  "'v OptimizeSatisfyEarlyStopping \<Rightarrow> 'v score_dict \<Rightarrow> error + bool" where
  "metric_decreases self score_dict =
     (if Mapping.is_empty (best_dict self) then Inr False
      else (case optimize_metric self score_dict of
              Inl e \<Rightarrow> Inl e
            | Inr a \<Rightarrow> (case optimize_metric self (best_dict self) of
                         Inl e \<Rightarrow> Inl e
                       | Inr b \<Rightarrow> Inr (a < b))))"

text \<open>
  \<open>all(f(best) >= value for f, value in items)\<close>: the generator is consumed in
  order, \<open>all\<close> returns at the first false element, and a metric that raises ends
  the call with its exception.
\<close>

fun all_satisfied :: "('v metric \<times> real) list \<Rightarrow> 'v score_dict \<Rightarrow> error + bool" where
  "all_satisfied [] d = Inr True"
| "all_satisfied ((satisfy_metric, value) # items) d =
     (case satisfy_metric d of
        Inl e \<Rightarrow> Inl e
      | Inr v \<Rightarrow> (if v \<ge> value then all_satisfied items d else Inr False))"

definition metrics_satisfied :: "'v OptimizeSatisfyEarlyStopping \<Rightarrow> error + bool" where
  "metrics_satisfied self = all_satisfied (satisfy_metrics self) (best_dict self)"

text \<open>
  \<open>evaluate_criteria\<close> returns the outcome of the call (the boolean, or the exception
  that escaped) together with the object after the call. \<open>and\<close> short-circuits:
  \<open>_metrics_satisfied\<close> runs only when \<open>_metric_decreases\<close> returned \<open>True\<close>. The
  assignment to \<open>best_dict\<close> is reached only when the condition was computed and false.
\<close>

definition evaluate_criteria ::
  "'v OptimizeSatisfyEarlyStopping \<Rightarrow> 'v score_dict
     \<Rightarrow> (error + bool) \<times> 'v OptimizeSatisfyEarlyStopping" where
  "evaluate_criteria self score_dict =
     (case metric_decreases self score_dict of
        Inl e \<Rightarrow> (Inl e, self)
      | Inr False \<Rightarrow> (Inr False, self\<lparr>best_dict := score_dict\<rparr>)
      | Inr True \<Rightarrow>
          (case metrics_satisfied self of
             Inl e \<Rightarrow> (Inl e, self)
           | Inr True \<Rightarrow> (Inr True, self)
           | Inr False \<Rightarrow> (Inr False, self\<lparr>best_dict := score_dict\<rparr>)))"

text \<open>
  A caller that invokes \<open>evaluate_criteria\<close> once per score dictionary, in order, on
  the same object, whatever each call returned; the outcomes are collected.
\<close>

fun evaluate_sequence ::
  "'v OptimizeSatisfyEarlyStopping \<Rightarrow> 'v score_dict list
     \<Rightarrow> (error + bool) list \<times> 'v OptimizeSatisfyEarlyStopping" where
  "evaluate_sequence self [] = ([], self)"
| "evaluate_sequence self (score_dict # rest) =
     (case evaluate_criteria self score_dict of
        (r, self') \<Rightarrow> (case evaluate_sequence self' rest of
                         (rs, self'') \<Rightarrow> (r # rs, self'')))"

subsection \<open>The same methods with the metric invocations recorded\<close>

text \<open>
  To speak about which metric is invoked during a call, the methods are repeated
  with a log of the invocations they make, in order: the optimize metric on a
  dictionary, or the \<open>i\<close>-th item of \<open>satisfy_metrics\<close> on a dictionary.
\<close>

datatype 'v call = OptimizeCall "'v score_dict" | SatisfyCall nat "'v score_dict"

definition metric_decreases_traced ::
  "'v OptimizeSatisfyEarlyStopping \<Rightarrow> 'v score_dict \<Rightarrow> (error + bool) \<times> 'v call list" where
  "metric_decreases_traced self score_dict =
     (if Mapping.is_empty (best_dict self) then (Inr False, [])
      else (case optimize_metric self score_dict of
              Inl e \<Rightarrow> (Inl e, [OptimizeCall score_dict])
            | Inr a \<Rightarrow> (case optimize_metric self (best_dict self) of
                         Inl e \<Rightarrow> (Inl e, [OptimizeCall score_dict, OptimizeCall (best_dict self)])
                       | Inr b \<Rightarrow> (Inr (a < b),
                                   [OptimizeCall score_dict, OptimizeCall (best_dict self)]))))"

fun all_satisfied_traced ::
  "nat \<Rightarrow> ('v metric \<times> real) list \<Rightarrow> 'v score_dict \<Rightarrow> (error + bool) \<times> 'v call list" where
  "all_satisfied_traced i [] d = (Inr True, [])"
| "all_satisfied_traced i ((satisfy_metric, value) # items) d =
     (case satisfy_metric d of
        Inl e \<Rightarrow> (Inl e, [SatisfyCall i d])
      | Inr v \<Rightarrow> (if v \<ge> value
                  then (case all_satisfied_traced (Suc i) items d of
                          (r, cs) \<Rightarrow> (r, SatisfyCall i d # cs))
                  else (Inr False, [SatisfyCall i d])))"

definition metrics_satisfied_traced ::
  "'v OptimizeSatisfyEarlyStopping \<Rightarrow> (error + bool) \<times> 'v call list" where
  "metrics_satisfied_traced self = all_satisfied_traced 0 (satisfy_metrics self) (best_dict self)"

definition evaluate_criteria_traced ::
  "'v OptimizeSatisfyEarlyStopping \<Rightarrow> 'v score_dict
     \<Rightarrow> ((error + bool) \<times> 'v OptimizeSatisfyEarlyStopping) \<times> 'v call list" where
  "evaluate_criteria_traced self score_dict =
     (case metric_decreases_traced self score_dict of
        (Inl e, cs) \<Rightarrow> ((Inl e, self), cs)
      | (Inr False, cs) \<Rightarrow> ((Inr False, self\<lparr>best_dict := score_dict\<rparr>), cs)
      | (Inr True, cs) \<Rightarrow>
          (case metrics_satisfied_traced self of
             (Inl e, cs') \<Rightarrow> ((Inl e, self), cs @ cs')
           | (Inr True, cs') \<Rightarrow> ((Inr True, self), cs @ cs')
           | (Inr False, cs') \<Rightarrow> ((Inr False, self\<lparr>best_dict := score_dict\<rparr>), cs @ cs')))"

text \<open>What a logged invocation returns: the metric it names, applied to its argument.\<close>

fun call_result :: "'v OptimizeSatisfyEarlyStopping \<Rightarrow> 'v call \<Rightarrow> error + real" where
  "call_result self (OptimizeCall d) = optimize_metric self d"
| "call_result self (SatisfyCall i d) = fst (satisfy_metrics self ! i) d"

fun is_satisfy_call :: "'v call \<Rightarrow> bool" where
  "is_satisfy_call (OptimizeCall d) = False"
| "is_satisfy_call (SatisfyCall i d) = True"

subsection \<open>The example of the script's main block\<close>

text \<open>
  \<open>lambda x: x["recall"]\<close> and \<open>lambda x: x["precision"]\<close>: subscripting a dict with a
  missing key raises \<open>KeyError\<close>. \<open>criterion\<close> is the object the script builds.
\<close>

definition subscript :: "string \<Rightarrow> real metric" where
  "subscript k x = (case Mapping.lookup x k of None \<Rightarrow> Inl (KeyError k) | Some v \<Rightarrow> Inr v)"

definition criterion :: "real OptimizeSatisfyEarlyStopping" where
  "criterion = init (subscript ''recall'') (Some [(subscript ''precision'', 0.5)])"

text \<open>
  The dictionary the script builds at each step,
  \<open>{"precision": precision_score(...), "recall": recall_score(...)}\<close>.
\<close>

definition score_dict_of :: "real \<Rightarrow> real \<Rightarrow> real score_dict" where
  "score_dict_of precision recall =
     Mapping.update ''recall'' recall (Mapping.update ''precision'' precision Mapping.empty)"

text \<open>
  A metric that is defined on every dictionary, \<open>lambda x: x.get("recall", 1.0)\<close>,
  and one that always raises.
\<close>

definition get_recall_or_one :: "real metric" where
  "get_recall_or_one x = Inr (Mapping.lookup_default 1 x ''recall'')"

definition always_raises :: "real metric" where
  "always_raises x = Inl (TypeError ''unsupported'')"

text \<open>The script's object with a satisfy metric that raises on every dictionary.\<close>

definition raising_criterion :: "real OptimizeSatisfyEarlyStopping" where
  "raising_criterion = init (subscript ''recall'') (Some [(always_raises, 0.5)])"

section \<open>\<open>prediction_confidence.py\<close>\<close>

subsection \<open>Python floats\<close>

text \<open>
  A Python \<open>float\<close> is an IEEE 754 binary64 value: a finite double, an infinity or
  NaN. Finite doubles are represented by the real number they denote (the two zeros
  are one value, as they are for \<open>==\<close>). Each arithmetic operation returns the exact
  result rounded to the nearest double, ties to the even significand.

  \<open>ilog2 x\<close> is the binary exponent of a positive \<open>x\<close>, the integer \<open>k\<close> with
  \<open>2^k \<le> x < 2^(k+1)\<close>, computed from the bit length of an integer.
\<close>

definition ilog2 :: "real \<Rightarrow> int" where
  "ilog2 x = (if x \<ge> 1 then bitlen \<lfloor>x\<rfloor> - 1 else - bitlen (\<lceil>1 / x\<rceil> - 1))"

text \<open>Rounding to the nearest integer, a tie going to the even one.\<close>

definition round_half_even :: "real \<Rightarrow> int" where
  "round_half_even x =
     (let n = \<lfloor>x\<rfloor>; r = x - of_int n
      in if r < 1 / 2 then n else if r > 1 / 2 then n + 1 else if even n then n else n + 1)"

text \<open>
  The exponent of the spacing of the doubles around \<open>x\<close>: 53 significant bits for
  normal numbers, and the fixed spacing \<open>2^-1074\<close> below \<open>2^-1022\<close> (subnormals).
\<close>

definition ulp_exponent :: "real \<Rightarrow> int" where
  "ulp_exponent x = max (ilog2 \<bar>x\<bar>) (- 1022) - 52"

text \<open>The nearest value on that grid (before the overflow test).\<close>

definition round_to_double :: "real \<Rightarrow> real" where
  "round_to_double x =
     (if x = 0 then 0
      else of_int (round_half_even (x / 2 powi ulp_exponent x)) * 2 powi ulp_exponent x)"

datatype pyfloat = Finite real | PosInf | NegInf | NaN

text \<open>A rounded result of magnitude \<open>2^1024\<close> or more overflows to an infinity.\<close>

definition overflow_threshold :: real where
  "overflow_threshold = 2 ^ 1024"

definition float_of_real :: "real \<Rightarrow> pyfloat" where
  "float_of_real x =
     (let y = round_to_double x
      in if y \<ge> overflow_threshold then PosInf
         else if y \<le> - overflow_threshold then NegInf
         else Finite y)"

text \<open>The reals that are finite doubles.\<close>

definition is_double :: "real \<Rightarrow> bool" where
  "is_double x \<longleftrightarrow> round_to_double x = x \<and> \<bar>x\<bar> < overflow_threshold"

text \<open>
  \<open>*\<close>, \<open>-\<close> and \<open>>=\<close> on floats, with the IEEE rules for infinities and NaN
  (\<open>0 * inf\<close> and \<open>inf - inf\<close> are NaN, every comparison with NaN is false).
\<close>

fun float_sign :: "pyfloat \<Rightarrow> int" where
  "float_sign (Finite a) = (if a > 0 then 1 else if a < 0 then - 1 else 0)"
| "float_sign PosInf = 1"
| "float_sign NegInf = - 1"
| "float_sign NaN = 0"

fun float_mul :: "pyfloat \<Rightarrow> pyfloat \<Rightarrow> pyfloat" where
  "float_mul NaN y = NaN"
| "float_mul x NaN = NaN"
| "float_mul (Finite a) (Finite b) = float_of_real (a * b)"
| "float_mul x y =
     (let s = float_sign x * float_sign y
      in if s = 0 then NaN else if s > 0 then PosInf else NegInf)"

fun float_sub :: "pyfloat \<Rightarrow> pyfloat \<Rightarrow> pyfloat" where
  "float_sub NaN y = NaN"
| "float_sub x NaN = NaN"
| "float_sub (Finite a) (Finite b) = float_of_real (a - b)"
| "float_sub PosInf PosInf = NaN"
| "float_sub NegInf NegInf = NaN"
| "float_sub PosInf y = PosInf"
| "float_sub NegInf y = NegInf"
| "float_sub (Finite a) PosInf = NegInf"
| "float_sub (Finite a) NegInf = PosInf"

fun float_ge :: "pyfloat \<Rightarrow> pyfloat \<Rightarrow> bool" where
  "float_ge NaN y = False"
| "float_ge x NaN = False"
| "float_ge (Finite a) (Finite b) = (a \<ge> b)"
| "float_ge PosInf y = True"
| "float_ge x NegInf = True"
| "float_ge x PosInf = False"
| "float_ge NegInf y = False"

subsection \<open>The function\<close>

text \<open>
  \<open>list(map(lambda p: 2 * p - 1 if p >= 0.5 else 1 - 2 * p, probabilities))\<close>. The
  integer literals \<open>2\<close> and \<open>1\<close> are converted to the doubles 2.0 and 1.0 by the
  arithmetic.
\<close>

definition binary_classification_confidence :: "pyfloat list \<Rightarrow> pyfloat list" where
  "binary_classification_confidence probabilities =
     map (\<lambda>p. if float_ge p (Finite 0.5)
              then float_sub (float_mul (Finite 2) p) (Finite 1)
              else float_sub (Finite 1) (float_mul (Finite 2) p)) probabilities"


section \<open>Basic facts\<close>

lemma all_satisfied_traced_fst:
  "fst (all_satisfied_traced i items d) = all_satisfied items d"
proof (induction items arbitrary: i)
  case Nil
  show ?case by simp
next
  case (Cons x items)
  obtain f t where x: "x = (f, t)" by (cases x)
  show ?case
    using Cons.IH [of "Suc i"]
    by (cases "all_satisfied_traced (Suc i) items d") (auto simp: x split: sum.splits)
qed

lemma metric_decreases_traced_fst:
  "fst (metric_decreases_traced self score_dict) = metric_decreases self score_dict"
  by (simp add: metric_decreases_traced_def metric_decreases_def split: sum.splits)

lemma evaluate_criteria_traced_fst:
  "fst (evaluate_criteria_traced self score_dict) = evaluate_criteria self score_dict"
proof -
  obtain r cs where d: "metric_decreases_traced self score_dict = (r, cs)"
    by (cases "metric_decreases_traced self score_dict")
  obtain r' cs' where s: "metrics_satisfied_traced self = (r', cs')"
    by (cases "metrics_satisfied_traced self")
  from d have d': "metric_decreases self score_dict = r"
    using metric_decreases_traced_fst [of self score_dict] by simp
  from s have s': "metrics_satisfied self = r'"
    using all_satisfied_traced_fst [of 0 "satisfy_metrics self" "best_dict self"]
    by (simp add: metrics_satisfied_traced_def metrics_satisfied_def)
  show ?thesis
    by (simp add: evaluate_criteria_traced_def evaluate_criteria_def d d' [symmetric]
        s s' [symmetric] split: sum.splits bool.splits)
qed

lemma all_satisfied_True_iff:
  "all_satisfied items d = Inr True \<longleftrightarrow> (\<forall>(f, t) \<in> set items. \<exists>v. f d = Inr v \<and> v \<ge> t)"
proof (induction items)
  case Nil
  show ?case by simp
next
  case (Cons x items)
  obtain g u where x: "x = (g, u)" by (cases x)
  show ?case
  proof (cases "g d")
    case (Inl e)
    then show ?thesis by (simp add: x)
  next
    case (Inr v)
    then show ?thesis using Cons.IH by (simp add: x)
  qed
qed

lemma all_satisfied_total:
  "\<forall>(f, t) \<in> set items. \<exists>v. f d = Inr v \<Longrightarrow> \<exists>r. all_satisfied items d = Inr r"
  by (induction items) (auto split: sum.splits)

lemma metric_decreases_True_iff:
  "metric_decreases self s = Inr True \<longleftrightarrow>
     \<not> Mapping.is_empty (best_dict self) \<and>
     (\<exists>a b. optimize_metric self s = Inr a \<and> optimize_metric self (best_dict self) = Inr b \<and> a < b)"
  by (auto simp: metric_decreases_def split: sum.splits)

lemma evaluate_criteria_stop_iff:
  "fst (evaluate_criteria self s) = Inr True \<longleftrightarrow>
     metric_decreases self s = Inr True \<and> metrics_satisfied self = Inr True"
  by (auto simp: evaluate_criteria_def split: sum.splits bool.splits)

lemma evaluate_criteria_stop_state:
  "fst (evaluate_criteria self s) = Inr True \<Longrightarrow> snd (evaluate_criteria self s) = self"
  by (auto simp: evaluate_criteria_def split: sum.splits bool.splits)

lemma evaluate_criteria_raise_state:
  "fst (evaluate_criteria self s) = Inl e \<Longrightarrow> snd (evaluate_criteria self s) = self"
  by (auto simp: evaluate_criteria_def split: sum.splits bool.splits)

lemma evaluate_criteria_continue_state:
  "fst (evaluate_criteria self s) = Inr False \<Longrightarrow>
     snd (evaluate_criteria self s) = self\<lparr>best_dict := s\<rparr>"
  by (auto simp: evaluate_criteria_def split: sum.splits bool.splits)

section \<open>The stopping decision\<close>

text \<open>
  C1. For an object whose \<open>best_dict\<close> is a non-empty dictionary (it holds a
  baseline), \<open>evaluate_criteria\<close> returns \<open>True\<close> (stop) if and only if the optimize
  metric of the current dictionary is strictly below that of the baseline and every
  satisfy metric, applied to the baseline, reaches its threshold. When it returns
  \<open>True\<close> the object is unchanged; when it returns \<open>False\<close>, \<open>best_dict\<close> is the current
  dictionary; and when the metrics return scores (none of them raises), every call
  that does not return \<open>True\<close> returns \<open>False\<close>.
\<close>

theorem evaluate_criteria_with_baseline:
  assumes "\<not> Mapping.is_empty (best_dict self)"
  shows "(fst (evaluate_criteria self cur) = Inr True \<longleftrightarrow>
            (\<exists>a b. optimize_metric self cur = Inr a
                 \<and> optimize_metric self (best_dict self) = Inr b \<and> a < b)
          \<and> (\<forall>(f, t) \<in> set (satisfy_metrics self). \<exists>v. f (best_dict self) = Inr v \<and> v \<ge> t))
       \<and> (fst (evaluate_criteria self cur) = Inr True \<longrightarrow> snd (evaluate_criteria self cur) = self)
       \<and> (fst (evaluate_criteria self cur) = Inr False \<longrightarrow>
            snd (evaluate_criteria self cur) = self\<lparr>best_dict := cur\<rparr>)
       \<and> ((\<exists>a. optimize_metric self cur = Inr a)
           \<and> (\<exists>b. optimize_metric self (best_dict self) = Inr b)
           \<and> (\<forall>(f, t) \<in> set (satisfy_metrics self). \<exists>v. f (best_dict self) = Inr v)
           \<and> fst (evaluate_criteria self cur) \<noteq> Inr True
          \<longrightarrow> evaluate_criteria self cur = (Inr False, self\<lparr>best_dict := cur\<rparr>))"
proof (intro conjI impI)
  show "fst (evaluate_criteria self cur) = Inr True \<longleftrightarrow>
            (\<exists>a b. optimize_metric self cur = Inr a
                 \<and> optimize_metric self (best_dict self) = Inr b \<and> a < b)
          \<and> (\<forall>(f, t) \<in> set (satisfy_metrics self). \<exists>v. f (best_dict self) = Inr v \<and> v \<ge> t)"
    using assms
    by (simp add: evaluate_criteria_stop_iff metric_decreases_True_iff metrics_satisfied_def
        all_satisfied_True_iff)
next
  assume "fst (evaluate_criteria self cur) = Inr True"
  then show "snd (evaluate_criteria self cur) = self" by (rule evaluate_criteria_stop_state)
next
  assume "fst (evaluate_criteria self cur) = Inr False"
  then show "snd (evaluate_criteria self cur) = self\<lparr>best_dict := cur\<rparr>"
    by (rule evaluate_criteria_continue_state)
next
  assume h: "(\<exists>a. optimize_metric self cur = Inr a)
           \<and> (\<exists>b. optimize_metric self (best_dict self) = Inr b)
           \<and> (\<forall>(f, t) \<in> set (satisfy_metrics self). \<exists>v. f (best_dict self) = Inr v)
           \<and> fst (evaluate_criteria self cur) \<noteq> Inr True"
  then obtain a b where a: "optimize_metric self cur = Inr a"
    and b: "optimize_metric self (best_dict self) = Inr b" by blast
  from h obtain r where r: "metrics_satisfied self = Inr r"
    using all_satisfied_total [of "satisfy_metrics self" "best_dict self"]
    by (auto simp: metrics_satisfied_def)
  from h have ns: "fst (evaluate_criteria self cur) \<noteq> Inr True" by simp
  show "evaluate_criteria self cur = (Inr False, self\<lparr>best_dict := cur\<rparr>)"
    using ns assms a b r
    by (auto simp: evaluate_criteria_def metric_decreases_def split: bool.splits)
qed

lemma criterion_simps:
  "optimize_metric criterion = subscript ''recall''"
  "satisfy_metrics criterion = [(subscript ''precision'', 0.5)]"
  "best_dict criterion = Mapping.empty"
  by (simp_all add: criterion_def init_def)

lemma score_dict_of_simps:
  "subscript ''recall'' (score_dict_of p r) = Inr r"
  "subscript ''precision'' (score_dict_of p r) = Inr p"
  "\<not> Mapping.is_empty (score_dict_of p r)"
  by (simp_all add: score_dict_of_def subscript_def)

theorem evaluate_criteria_with_baseline_witness:
  "\<not> Mapping.is_empty (best_dict (criterion\<lparr>best_dict := score_dict_of 0.9 0.5\<rparr>))
   \<and> evaluate_criteria (criterion\<lparr>best_dict := score_dict_of 0.9 0.5\<rparr>) (score_dict_of 0.3 0.4)
       = (Inr True, criterion\<lparr>best_dict := score_dict_of 0.9 0.5\<rparr>)
   \<and> evaluate_criteria (criterion\<lparr>best_dict := score_dict_of 0.4 0.7\<rparr>) (score_dict_of 0.9 0.5)
       = (Inr False, criterion\<lparr>best_dict := score_dict_of 0.9 0.5\<rparr>)"
proof -
  let ?m = "criterion\<lparr>best_dict := score_dict_of 0.9 0.5\<rparr>"
  let ?n = "criterion\<lparr>best_dict := score_dict_of 0.4 0.7\<rparr>"
  have hm: "\<not> Mapping.is_empty (best_dict ?m)" by (simp add: score_dict_of_simps)
  have hn: "\<not> Mapping.is_empty (best_dict ?n)" by (simp add: score_dict_of_simps)
  have am: "optimize_metric ?m (score_dict_of 0.3 0.4) = Inr 0.4"
    and bm: "optimize_metric ?m (best_dict ?m) = Inr 0.5"
    and sm: "satisfy_metrics ?m = [(subscript ''precision'', 0.5)]"
    and pm: "subscript ''precision'' (best_dict ?m) = Inr 0.9"
    by (simp_all add: criterion_simps score_dict_of_simps)
  have "(0.4::real) < 0.5" by simp
  with am bm have "\<exists>a b. optimize_metric ?m (score_dict_of 0.3 0.4) = Inr a
            \<and> optimize_metric ?m (best_dict ?m) = Inr b \<and> a < b"
    by blast
  moreover have "(0.9::real) \<ge> 0.5" by simp
  with pm have "\<exists>v. subscript ''precision'' (best_dict ?m) = Inr v \<and> v \<ge> 0.5"
    by blast
  then have "\<forall>(f, t) \<in> set (satisfy_metrics ?m). \<exists>v. f (best_dict ?m) = Inr v \<and> v \<ge> t"
    unfolding sm by simp
  ultimately have "fst (evaluate_criteria ?m (score_dict_of 0.3 0.4)) = Inr True
      \<and> snd (evaluate_criteria ?m (score_dict_of 0.3 0.4)) = ?m"
    using evaluate_criteria_with_baseline [OF hm, of "score_dict_of 0.3 0.4"] by blast
  then have 1: "evaluate_criteria ?m (score_dict_of 0.3 0.4) = (Inr True, ?m)"
    by (simp add: prod_eq_iff)
  have an: "optimize_metric ?n (score_dict_of 0.9 0.5) = Inr 0.5"
    and bn: "optimize_metric ?n (best_dict ?n) = Inr 0.7"
    and sn: "satisfy_metrics ?n = [(subscript ''precision'', 0.5)]"
    and pn: "subscript ''precision'' (best_dict ?n) = Inr 0.4"
    by (simp_all add: criterion_simps score_dict_of_simps)
  have "\<not> (0.5::real) < 0.7 \<or> \<not> (0.4::real) \<ge> 0.5" by simp
  with an bn pn have "\<not> ((\<exists>a b. optimize_metric ?n (score_dict_of 0.9 0.5) = Inr a
            \<and> optimize_metric ?n (best_dict ?n) = Inr b \<and> a < b)
        \<and> (\<forall>(f, t) \<in> set (satisfy_metrics ?n). \<exists>v. f (best_dict ?n) = Inr v \<and> v \<ge> t))"
    unfolding sn by auto
  moreover from pn have "\<exists>v. subscript ''precision'' (best_dict ?n) = Inr v"
    by blast
  then have "\<forall>(f, t) \<in> set (satisfy_metrics ?n). \<exists>v. f (best_dict ?n) = Inr v"
    unfolding sn by simp
  ultimately have 2: "evaluate_criteria ?n (score_dict_of 0.9 0.5)
      = (Inr False, ?n\<lparr>best_dict := score_dict_of 0.9 0.5\<rparr>)"
    using evaluate_criteria_with_baseline [OF hn, of "score_dict_of 0.9 0.5"] an bn by blast
  from hm 1 2 show ?thesis by simp
qed

text \<open>
  C2. The first call on a freshly constructed object returns \<open>False\<close> (do not stop)
  and stores the given dictionary in \<open>best_dict\<close>, for every dictionary, optimize
  metric and satisfy dict, including metrics that raise on every input.
\<close>

theorem first_call_does_not_stop:
  "evaluate_criteria (init opt sat) score_dict
     = (Inr False, (init opt sat)\<lparr>best_dict := score_dict\<rparr>)"
  by (simp add: evaluate_criteria_def metric_decreases_def init_def)

lemma init_simps:
  "optimize_metric (init opt sat) = opt"
  "satisfy_metrics (init opt None) = []"
  "satisfy_metrics (init opt (Some items)) = items"
  "best_dict (init opt sat) = Mapping.empty"
  by (simp_all add: init_def)

text \<open>
  C3. When \<open>evaluate_criteria\<close> returns \<open>True\<close>, the object is unchanged by the call, so
  the next call behaves exactly as it would have on the object before (regression
  and satisfaction are computed against the same \<open>best_dict\<close>); and any further call
  with a dictionary whose optimize metric is strictly below that of the frozen
  baseline returns \<open>True\<close> again and leaves the object unchanged.
\<close>

theorem stop_is_repeatable:
  assumes "fst (evaluate_criteria self s) = Inr True"
  shows "snd (evaluate_criteria self s) = self
       \<and> (\<forall>c. evaluate_criteria (snd (evaluate_criteria self s)) c = evaluate_criteria self c)
       \<and> (\<forall>c a b. optimize_metric self c = Inr a
                 \<and> optimize_metric self (best_dict self) = Inr b \<and> a < b
            \<longrightarrow> evaluate_criteria (snd (evaluate_criteria self s)) c = (Inr True, self))"
proof -
  have st: "snd (evaluate_criteria self s) = self"
    using assms by (rule evaluate_criteria_stop_state)
  from assms have ne: "\<not> Mapping.is_empty (best_dict self)"
    and sat: "metrics_satisfied self = Inr True"
    by (simp_all add: evaluate_criteria_stop_iff metric_decreases_True_iff)
  have "evaluate_criteria self c = (Inr True, self)"
    if "optimize_metric self c = Inr a" "optimize_metric self (best_dict self) = Inr b" "a < b"
    for c a b
  proof -
    from that ne have "metric_decreases self c = Inr True"
      by (simp add: metric_decreases_def)
    with sat show ?thesis by (simp add: evaluate_criteria_def)
  qed
  with st show ?thesis by auto
qed

theorem stop_is_repeatable_witness:
  "fst (evaluate_criteria (criterion\<lparr>best_dict := score_dict_of 0.9 0.5\<rparr>) (score_dict_of 0.3 0.4))
     = Inr True
   \<and> evaluate_criteria
       (snd (evaluate_criteria (criterion\<lparr>best_dict := score_dict_of 0.9 0.5\<rparr>)
          (score_dict_of 0.3 0.4)))
       (score_dict_of 0.2 0.1)
     = (Inr True, criterion\<lparr>best_dict := score_dict_of 0.9 0.5\<rparr>)"
proof -
  let ?m = "criterion\<lparr>best_dict := score_dict_of 0.9 0.5\<rparr>"
  have h: "fst (evaluate_criteria ?m (score_dict_of 0.3 0.4)) = Inr True"
    by (simp add: evaluate_criteria_def metric_decreases_def metrics_satisfied_def
        criterion_simps score_dict_of_simps)
  have a: "optimize_metric ?m (score_dict_of 0.2 0.1) = Inr 0.1"
    and b: "optimize_metric ?m (best_dict ?m) = Inr 0.5"
    by (simp_all add: criterion_simps score_dict_of_simps)
  have "(0.1::real) < 0.5" by simp
  with stop_is_repeatable [OF h] a b
  have "evaluate_criteria (snd (evaluate_criteria ?m (score_dict_of 0.3 0.4)))
          (score_dict_of 0.2 0.1) = (Inr True, ?m)"
    by blast
  with h show ?thesis by simp
qed

text \<open>
  C8. With an empty \<open>satisfy_metrics\<close>, \<open>_metrics_satisfied\<close> returns \<open>True\<close>, and on an
  object holding a baseline \<open>evaluate_criteria\<close> returns \<open>True\<close> exactly when the
  optimize metric of the current dictionary is strictly below that of the baseline.
\<close>

theorem empty_satisfy_set:
  assumes "satisfy_metrics self = []"
  shows "metrics_satisfied self = Inr True
       \<and> (\<not> Mapping.is_empty (best_dict self) \<longrightarrow>
            (fst (evaluate_criteria self cur) = Inr True \<longleftrightarrow>
               (\<exists>a b. optimize_metric self cur = Inr a
                    \<and> optimize_metric self (best_dict self) = Inr b \<and> a < b)))"
  using assms
  by (simp add: evaluate_criteria_stop_iff metric_decreases_True_iff metrics_satisfied_def)

theorem empty_satisfy_set_witness:
  "satisfy_metrics ((init (subscript ''recall'') None)\<lparr>best_dict := score_dict_of 0.1 0.5\<rparr>) = []
   \<and> fst (evaluate_criteria ((init (subscript ''recall'') None)\<lparr>best_dict := score_dict_of 0.1 0.5\<rparr>)
            (score_dict_of 0.3 0.4)) = Inr True
   \<and> fst (evaluate_criteria ((init (subscript ''recall'') None)\<lparr>best_dict := score_dict_of 0.1 0.5\<rparr>)
            (score_dict_of 0.3 0.5)) \<noteq> Inr True"
proof -
  let ?m = "(init (subscript ''recall'') None)\<lparr>best_dict := score_dict_of 0.1 0.5\<rparr>"
  have h: "satisfy_metrics ?m = []" by (simp add: init_simps)
  have ne: "\<not> Mapping.is_empty (best_dict ?m)" by (simp add: score_dict_of_simps)
  have a: "optimize_metric ?m (score_dict_of 0.3 0.4) = Inr 0.4"
    and a': "optimize_metric ?m (score_dict_of 0.3 0.5) = Inr 0.5"
    and b: "optimize_metric ?m (best_dict ?m) = Inr 0.5"
    by (simp_all add: init_simps score_dict_of_simps)
  have lt: "(0.4::real) < 0.5" and nlt: "\<not> (0.5::real) < 0.5" by simp_all
  from a b lt have "\<exists>a b. optimize_metric ?m (score_dict_of 0.3 0.4) = Inr a
                    \<and> optimize_metric ?m (best_dict ?m) = Inr b \<and> a < b" by blast
  with empty_satisfy_set [OF h, of "score_dict_of 0.3 0.4"] ne
  have 1: "fst (evaluate_criteria ?m (score_dict_of 0.3 0.4)) = Inr True" by blast
  from a' b nlt have "\<not> (\<exists>a b. optimize_metric ?m (score_dict_of 0.3 0.5) = Inr a
                    \<and> optimize_metric ?m (best_dict ?m) = Inr b \<and> a < b)" by auto
  with empty_satisfy_set [OF h, of "score_dict_of 0.3 0.5"] ne
  have 2: "fst (evaluate_criteria ?m (score_dict_of 0.3 0.5)) \<noteq> Inr True" by blast
  from h 1 2 show ?thesis by simp
qed

lemma evaluate_criteria_fields:
  "optimize_metric (snd (evaluate_criteria self s)) = optimize_metric self"
  "satisfy_metrics (snd (evaluate_criteria self s)) = satisfy_metrics self"
  by (simp_all add: evaluate_criteria_def split: sum.splits bool.splits)

lemma evaluate_criteria_best_dict:
  "best_dict (snd (evaluate_criteria self s)) = best_dict self
   \<or> best_dict (snd (evaluate_criteria self s)) = s"
  by (simp add: evaluate_criteria_def split: sum.splits bool.splits)

lemma evaluate_criteria_no_regress:
  assumes "metric_decreases self s = Inr False"
  shows "evaluate_criteria self s = (Inr False, self\<lparr>best_dict := s\<rparr>)"
  using assms by (simp add: evaluate_criteria_def)

lemma evaluate_sequence_Cons:
  "fst (evaluate_sequence self (s # ss)) =
     fst (evaluate_criteria self s) # fst (evaluate_sequence (snd (evaluate_criteria self s)) ss)"
  "snd (evaluate_sequence self (s # ss)) =
     snd (evaluate_sequence (snd (evaluate_criteria self s)) ss)"
  by (simp_all split: prod.splits)

lemma evaluate_sequence_increasing:
  assumes "map (optimize_metric self) ss = map Inr vs" and "sorted_wrt (<) vs"
    and "Mapping.is_empty (best_dict self)
         \<or> (\<exists>b. optimize_metric self (best_dict self) = Inr b \<and> (\<forall>v \<in> set vs. b < v))"
  shows "fst (evaluate_sequence self ss) = replicate (length ss) (Inr False)"
  using assms
proof (induction ss arbitrary: self vs)
  case Nil
  show ?case by simp
next
  case (Cons s ss)
  from Cons.prems(1) obtain v vs' where vs: "vs = v # vs'"
    and v: "optimize_metric self s = Inr v"
    and rest: "map (optimize_metric self) ss = map Inr vs'"
    by (cases vs) auto
  from Cons.prems(2) vs have sorted: "sorted_wrt (<) vs'" and above: "\<forall>w \<in> set vs'. v < w"
    by auto
  from Cons.prems(3) v vs have "metric_decreases self s = Inr False"
    by (auto simp: metric_decreases_def)
  then have step: "evaluate_criteria self s = (Inr False, self\<lparr>best_dict := s\<rparr>)"
    by (rule evaluate_criteria_no_regress)
  let ?self' = "self\<lparr>best_dict := s\<rparr>"
  have "fst (evaluate_sequence ?self' ss) = replicate (length ss) (Inr False)"
  proof (rule Cons.IH [of ?self' vs'])
    show "map (optimize_metric ?self') ss = map Inr vs'" using rest by simp
    show "sorted_wrt (<) vs'" by (rule sorted)
    show "Mapping.is_empty (best_dict ?self')
         \<or> (\<exists>b. optimize_metric ?self' (best_dict ?self') = Inr b \<and> (\<forall>v \<in> set vs'. b < v))"
      using v above by auto
  qed
  with step show ?case by (simp only: evaluate_sequence_Cons) simp
qed

text \<open>
  C7. For every finite sequence of dictionaries on which the optimize metric returns
  strictly increasing scores, evaluating them in order on a fresh object never
  returns \<open>True\<close>, whatever the satisfy dict.
\<close>

theorem increasing_optimize_never_stops:
  assumes "map opt ss = map Inr vs" and "sorted_wrt (<) vs"
  shows "Inr True \<notin> set (fst (evaluate_sequence (init opt sat) ss))"
proof -
  have "fst (evaluate_sequence (init opt sat) ss) = replicate (length ss) (Inr False)"
    using assms by (intro evaluate_sequence_increasing [of _ _ vs]) (simp_all add: init_simps)
  then show ?thesis by simp
qed


theorem increasing_optimize_never_stops_witness:
  "map (subscript ''recall'') [score_dict_of 0.6 0.1, score_dict_of 0.9 0.2, score_dict_of 0.9 0.3]
     = map Inr [0.1, 0.2, 0.3]
   \<and> sorted_wrt (<) [0.1, 0.2, 0.3 :: real]
   \<and> Inr True \<notin> set (fst (evaluate_sequence criterion
        [score_dict_of 0.6 0.1, score_dict_of 0.9 0.2, score_dict_of 0.9 0.3]))"
proof -
  have 1: "map (subscript ''recall'')
             [score_dict_of 0.6 0.1, score_dict_of 0.9 0.2, score_dict_of 0.9 0.3]
           = map Inr [0.1, 0.2, 0.3]"
    by (simp add: score_dict_of_simps)
  have 2: "sorted_wrt (<) [0.1, 0.2, 0.3 :: real]" by simp
  from increasing_optimize_never_stops [OF 1 2, of "Some [(subscript ''precision'', 0.5)]"] 1 2
  show ?thesis by (simp only: criterion_def) simp
qed

lemma evaluate_criteria_no_baseline:
  assumes "Mapping.is_empty (best_dict self)"
  shows "evaluate_criteria self s = (Inr False, self\<lparr>best_dict := s\<rparr>)"
  using assms by (simp add: evaluate_criteria_def metric_decreases_def)

text \<open>
  C6, amended. For a non-empty dictionary \<open>A\<close> and a dictionary \<open>B\<close> with
  \<open>optimize(B) < optimize(A)\<close>, where every satisfy metric reaches its threshold on
  \<open>A\<close>, evaluating \<open>A\<close> then \<open>B\<close> on a fresh object returns \<open>False\<close> then \<open>True\<close>.
\<close>

theorem regression_after_satisfying_baseline_stops:
  assumes "\<not> Mapping.is_empty A"
    and "opt A = Inr a" and "opt B = Inr b" and "b < a"
    and "\<forall>(f, t) \<in> set (satisfy_metrics (init opt sat)). \<exists>v. f A = Inr v \<and> v \<ge> t"
  shows "fst (evaluate_sequence (init opt sat) [A, B]) = [Inr False, Inr True]"
proof -
  let ?m = "init opt sat"
  let ?m' = "?m\<lparr>best_dict := A\<rparr>"
  have 1: "evaluate_criteria ?m A = (Inr False, ?m')"
    by (rule evaluate_criteria_no_baseline) (simp add: init_simps)
  from assms(1-4) have "metric_decreases ?m' B = Inr True"
    by (simp add: metric_decreases_def init_simps)
  moreover from assms(5) have "metrics_satisfied ?m' = Inr True"
    by (simp add: metrics_satisfied_def all_satisfied_True_iff)
  ultimately have "fst (evaluate_criteria ?m' B) = Inr True"
    by (simp add: evaluate_criteria_stop_iff)
  with 1 show ?thesis by (simp only: evaluate_sequence_Cons) simp
qed

theorem regression_after_satisfying_baseline_stops_witness:
  "\<not> Mapping.is_empty (score_dict_of 0.9 0.5)
   \<and> subscript ''recall'' (score_dict_of 0.9 0.5) = Inr 0.5
   \<and> subscript ''recall'' (score_dict_of 0.3 0.4) = Inr 0.4
   \<and> (0.4::real) < 0.5
   \<and> fst (evaluate_sequence criterion [score_dict_of 0.9 0.5, score_dict_of 0.3 0.4])
       = [Inr False, Inr True]"
proof -
  have 1: "\<not> Mapping.is_empty (score_dict_of 0.9 0.5)"
    and 2: "subscript ''recall'' (score_dict_of 0.9 0.5) = Inr 0.5"
    and 3: "subscript ''recall'' (score_dict_of 0.3 0.4) = Inr 0.4"
    and 4: "(0.4::real) < 0.5"
    by (simp_all add: score_dict_of_simps)
  have p: "subscript ''precision'' (score_dict_of 0.9 0.5) = Inr 0.9"
    by (simp add: score_dict_of_simps)
  have "(0.9::real) \<ge> 0.5" by simp
  with p have "\<exists>v. subscript ''precision'' (score_dict_of 0.9 0.5) = Inr v \<and> v \<ge> 0.5"
    by blast
  then have 5: "\<forall>(f, t) \<in> set (satisfy_metrics
        (init (subscript ''recall'') (Some [(subscript ''precision'', 0.5)]))).
      \<exists>v. f (score_dict_of 0.9 0.5) = Inr v \<and> v \<ge> t"
    by (simp add: init_simps)
  from regression_after_satisfying_baseline_stops [OF 1 2 3 4 5] 1 2 3 4
  show ?thesis by (simp only: criterion_def) simp
qed

lemma get_recall_or_one_simps:
  "get_recall_or_one Mapping.empty = Inr 1"
  "get_recall_or_one (score_dict_of p r) = Inr r"
  by (simp_all add: get_recall_or_one_def score_dict_of_def lookup_default_empty
      lookup_default_update)

text \<open>
  The restriction to a non-empty \<open>A\<close> is needed. An empty dictionary stored by the
  first call is indistinguishable from the initial \<open>{}\<close>, so the second call returns
  \<open>False\<close> although the optimize metric fell from 1 to 0.5 and nothing is to be
  satisfied.
\<close>

theorem empty_first_dict_no_stop_counterexample:
  "get_recall_or_one Mapping.empty = Inr 1
   \<and> get_recall_or_one (score_dict_of 0.9 0.5) = Inr 0.5
   \<and> (0.5::real) < 1
   \<and> satisfy_metrics (init get_recall_or_one None) = []
   \<and> fst (evaluate_sequence (init get_recall_or_one None) [Mapping.empty, score_dict_of 0.9 0.5])
       = [Inr False, Inr False]"
  by (simp add: get_recall_or_one_simps init_simps evaluate_criteria_def metric_decreases_def)

lemma evaluate_criteria_keeps_baseline:
  assumes "\<not> Mapping.is_empty s"
  shows "\<not> Mapping.is_empty (best_dict (snd (evaluate_criteria self s)))"
proof (cases "Mapping.is_empty (best_dict self)")
  case True
  then show ?thesis using assms by (simp add: evaluate_criteria_no_baseline)
next
  case False
  then show ?thesis
    using assms evaluate_criteria_best_dict [of self s] by auto
qed

lemma evaluate_sequence_keeps_baseline:
  assumes "\<forall>s \<in> set ss. \<not> Mapping.is_empty s"
    and "ss \<noteq> [] \<or> \<not> Mapping.is_empty (best_dict self)"
  shows "\<not> Mapping.is_empty (best_dict (snd (evaluate_sequence self ss)))"
  using assms
proof (induction ss arbitrary: self)
  case Nil
  then show ?case by simp
next
  case (Cons s ss)
  from Cons.prems(1) have "\<not> Mapping.is_empty (best_dict (snd (evaluate_criteria self s)))"
    by (simp add: evaluate_criteria_keeps_baseline)
  with Cons.prems(1) Cons.IH [of "snd (evaluate_criteria self s)"]
  show ?case by (simp only: evaluate_sequence_Cons) simp
qed

lemma evaluate_sequence_optimize_metric:
  "optimize_metric (snd (evaluate_sequence self ss)) = optimize_metric self"
proof (induction ss arbitrary: self)
  case Nil
  show ?case by simp
next
  case (Cons s ss)
  show ?case
    by (simp only: evaluate_sequence_Cons Cons.IH evaluate_criteria_fields)
qed

text \<open>
  C4, amended. When every dictionary passed is non-empty, then after the first call
  and after every later one \<open>best_dict\<close> is non-empty (the object holds a baseline),
  and the next call's \<open>_metric_decreases\<close> is the comparison
  \<open>optimize(current) < optimize(best_dict)\<close>, not the \<open>best_dict == {}\<close> branch.
\<close>

theorem nonempty_dicts_keep_baseline:
  assumes "\<forall>s \<in> set ss. \<not> Mapping.is_empty s" and "0 < n" and "n \<le> length ss"
  shows "\<not> Mapping.is_empty (best_dict (snd (evaluate_sequence (init opt sat) (take n ss))))
       \<and> (\<forall>c. metric_decreases (snd (evaluate_sequence (init opt sat) (take n ss))) c =
              (case opt c of
                 Inl e \<Rightarrow> Inl e
               | Inr a \<Rightarrow>
                   (case opt (best_dict (snd (evaluate_sequence (init opt sat) (take n ss)))) of
                      Inl e \<Rightarrow> Inl e
                    | Inr b \<Rightarrow> Inr (a < b))))"
proof -
  let ?m = "snd (evaluate_sequence (init opt sat) (take n ss))"
  from assms(1) have "\<forall>s \<in> set (take n ss). \<not> Mapping.is_empty s"
    by (meson in_set_takeD)
  moreover from assms(2,3) have "take n ss \<noteq> []" by auto
  ultimately have ne: "\<not> Mapping.is_empty (best_dict ?m)"
    by (simp add: evaluate_sequence_keeps_baseline)
  have "optimize_metric ?m = opt"
    by (simp add: evaluate_sequence_optimize_metric init_simps)
  with ne show ?thesis by (simp add: metric_decreases_def split: sum.splits)
qed

theorem nonempty_dicts_keep_baseline_witness:
  "\<not> Mapping.is_empty (score_dict_of 0.9 0.5)
   \<and> \<not> Mapping.is_empty (score_dict_of 0.3 0.4)
   \<and> \<not> Mapping.is_empty (best_dict (snd (evaluate_sequence criterion
          (take 1 [score_dict_of 0.9 0.5, score_dict_of 0.3 0.4]))))
   \<and> \<not> Mapping.is_empty (best_dict (snd (evaluate_sequence criterion
          (take 2 [score_dict_of 0.9 0.5, score_dict_of 0.3 0.4]))))
   \<and> metric_decreases (snd (evaluate_sequence criterion
          (take 1 [score_dict_of 0.9 0.5, score_dict_of 0.3 0.4]))) (score_dict_of 0.3 0.4)
       = Inr True"
proof -
  let ?ss = "[score_dict_of 0.9 0.5, score_dict_of 0.3 0.4]"
  have 1: "\<forall>s \<in> set ?ss. \<not> Mapping.is_empty s"
    by (simp add: score_dict_of_simps)
  have n1: "(0::nat) < 1" "(1::nat) \<le> length ?ss"
    and n2: "(0::nat) < 2" "(2::nat) \<le> length ?ss" by simp_all
  note one = nonempty_dicts_keep_baseline [OF 1 n1, of "subscript ''recall''"
      "Some [(subscript ''precision'', 0.5)]", folded criterion_def]
  note two = nonempty_dicts_keep_baseline [OF 1 n2, of "subscript ''recall''"
      "Some [(subscript ''precision'', 0.5)]", folded criterion_def]
  have b: "best_dict (snd (evaluate_sequence criterion (take 1 ?ss))) = score_dict_of 0.9 0.5"
    by (simp add: evaluate_criteria_no_baseline criterion_simps)
  from one have c: "metric_decreases (snd (evaluate_sequence criterion (take 1 ?ss)))
        (score_dict_of 0.3 0.4) =
      (case subscript ''recall'' (score_dict_of 0.3 0.4) of
         Inl e \<Rightarrow> Inl e
       | Inr a \<Rightarrow>
           (case subscript ''recall''
                   (best_dict (snd (evaluate_sequence criterion (take 1 ?ss)))) of
              Inl e \<Rightarrow> Inl e
            | Inr b \<Rightarrow> Inr (a < b)))"
    by blast
  have 3: "metric_decreases (snd (evaluate_sequence criterion (take 1 ?ss)))
        (score_dict_of 0.3 0.4) = Inr True"
    unfolding c b by (simp add: score_dict_of_simps)
  from one two 1 3 show ?thesis by simp
qed

text \<open>
  The restriction to non-empty dictionaries is needed. After a first call with the
  empty dictionary, \<open>best_dict == {}\<close> still holds: the second call returns from
  \<open>_metric_decreases\<close> at the first test, applies no metric, and reports no decrease
  although the optimize metric fell from 1 to 0.5.
\<close>

theorem empty_first_dict_no_baseline_counterexample:
  "Mapping.is_empty (best_dict (snd (evaluate_criteria (init get_recall_or_one None) Mapping.empty)))
   \<and> get_recall_or_one Mapping.empty = Inr 1
   \<and> get_recall_or_one (score_dict_of 0.9 0.5) = Inr 0.5
   \<and> (0.5::real) < 1
   \<and> metric_decreases (snd (evaluate_criteria (init get_recall_or_one None) Mapping.empty))
        (score_dict_of 0.9 0.5) = Inr False
   \<and> snd (evaluate_criteria_traced
        (snd (evaluate_criteria (init get_recall_or_one None) Mapping.empty))
        (score_dict_of 0.9 0.5)) = []"
  by (simp add: get_recall_or_one_simps init_simps evaluate_criteria_def metric_decreases_def
      evaluate_criteria_traced_def metric_decreases_traced_def)

lemma all_satisfied_traced_calls:
  "c \<in> set (snd (all_satisfied_traced i items d))
     \<Longrightarrow> \<exists>k. c = SatisfyCall k d \<and> i \<le> k \<and> k < i + length items"
proof (induction items arbitrary: i)
  case Nil
  then show ?case by simp
next
  case (Cons x items)
  obtain f t where x: "x = (f, t)" by (cases x)
  show ?case
  proof (cases "c = SatisfyCall i d")
    case True
    then show ?thesis by simp
  next
    case False
    with Cons.prems have "c \<in> set (snd (all_satisfied_traced (Suc i) items d))"
      by (auto simp: x split: sum.splits if_splits prod.splits)
    from Cons.IH [OF this] show ?thesis by auto
  qed
qed

lemma all_satisfied_traced_raise:
  "SatisfyCall k d' \<in> set (snd (all_satisfied_traced i items d))
     \<Longrightarrow> fst (items ! (k - i)) d' = Inl e
     \<Longrightarrow> fst (all_satisfied_traced i items d) = Inl e"
proof (induction items arbitrary: i)
  case Nil
  then show ?case by simp
next
  case (Cons x items)
  obtain f t where x: "x = (f, t)" by (cases x)
  show ?case
  proof (cases "k = i")
    case True
    from Cons.prems(1) all_satisfied_traced_calls [of "SatisfyCall k d'" i "x # items" d]
    have "d' = d" by auto
    with True Cons.prems(2) show ?thesis by (simp add: x)
  next
    case False
    with Cons.prems(1)
    have mem: "SatisfyCall k d' \<in> set (snd (all_satisfied_traced (Suc i) items d))"
      and ok: "\<exists>v. f d = Inr v \<and> v \<ge> t"
      by (auto simp: x split: sum.splits if_splits prod.splits)
    from all_satisfied_traced_calls [OF mem] have "Suc i \<le> k" by auto
    then have "(x # items) ! (k - i) = items ! (k - Suc i)"
      by (simp add: Suc_diff_le)
    with Cons.prems(2) have "fst (items ! (k - Suc i)) d' = Inl e" by simp
    from Cons.IH [OF mem this] ok show ?thesis
      by (cases "all_satisfied_traced (Suc i) items d") (auto simp: x)
  qed
qed

lemma all_satisfied_traced_raised_by:
  "fst (all_satisfied_traced i items d) = Inl e
     \<Longrightarrow> \<exists>k. SatisfyCall k d \<in> set (snd (all_satisfied_traced i items d))
            \<and> i \<le> k \<and> fst (items ! (k - i)) d = Inl e"
proof (induction items arbitrary: i)
  case Nil
  then show ?case by simp
next
  case (Cons x items)
  obtain f t where x: "x = (f, t)" by (cases x)
  show ?case
  proof (cases "f d")
    case (Inl e')
    with Cons.prems have "e' = e" by (simp add: x)
    with Inl have "SatisfyCall i d \<in> set (snd (all_satisfied_traced i (x # items) d))
        \<and> i \<le> i \<and> fst ((x # items) ! (i - i)) d = Inl e"
      by (simp add: x)
    then show ?thesis by blast
  next
    case (Inr v)
    with Cons.prems have ge: "v \<ge> t"
      and rec: "fst (all_satisfied_traced (Suc i) items d) = Inl e"
      by (auto simp: x split: if_splits prod.splits)
    from Cons.IH [OF rec] obtain k
      where k: "SatisfyCall k d \<in> set (snd (all_satisfied_traced (Suc i) items d))"
        "Suc i \<le> k" "fst (items ! (k - Suc i)) d = Inl e"
      by blast
    from k(2) have "(x # items) ! (k - i) = items ! (k - Suc i)"
      by (simp add: Suc_diff_le)
    with k Inr ge have "SatisfyCall k d \<in> set (snd (all_satisfied_traced i (x # items) d))
        \<and> i \<le> k \<and> fst ((x # items) ! (k - i)) d = Inl e"
      by (cases "all_satisfied_traced (Suc i) items d") (auto simp: x)
    then show ?thesis by blast
  qed
qed

lemma metric_decreases_traced_calls:
  "c \<in> set (snd (metric_decreases_traced self s)) \<Longrightarrow> \<not> is_satisfy_call c"
  by (auto simp: metric_decreases_traced_def split: if_splits sum.splits)

lemma metric_decreases_traced_raise:
  "c \<in> set (snd (metric_decreases_traced self s)) \<Longrightarrow> call_result self c = Inl e
     \<Longrightarrow> fst (metric_decreases_traced self s) = Inl e"
  by (auto simp: metric_decreases_traced_def split: if_splits sum.splits)

lemma metric_decreases_traced_raised_by:
  "fst (metric_decreases_traced self s) = Inl e
     \<Longrightarrow> \<exists>c \<in> set (snd (metric_decreases_traced self s)). call_result self c = Inl e"
  by (auto simp: metric_decreases_traced_def split: if_splits sum.splits)

lemma metrics_satisfied_traced_calls:
  "c \<in> set (snd (metrics_satisfied_traced self)) \<Longrightarrow> is_satisfy_call c"
  using all_satisfied_traced_calls [of c 0 "satisfy_metrics self" "best_dict self"]
  by (auto simp: metrics_satisfied_traced_def)

lemma metrics_satisfied_traced_raise:
  assumes "c \<in> set (snd (metrics_satisfied_traced self))" and "call_result self c = Inl e"
  shows "fst (metrics_satisfied_traced self) = Inl e"
proof -
  from assms(1) obtain k where c: "c = SatisfyCall k (best_dict self)"
    using all_satisfied_traced_calls [of c 0 "satisfy_metrics self" "best_dict self"]
    by (auto simp: metrics_satisfied_traced_def)
  with assms show ?thesis
    using all_satisfied_traced_raise [of k "best_dict self" 0 "satisfy_metrics self"
        "best_dict self" e]
    by (simp add: metrics_satisfied_traced_def)
qed

lemma metrics_satisfied_traced_raised_by:
  assumes "fst (metrics_satisfied_traced self) = Inl e"
  shows "\<exists>c \<in> set (snd (metrics_satisfied_traced self)). call_result self c = Inl e"
proof -
  from assms obtain k
    where "SatisfyCall k (best_dict self) \<in> set (snd (metrics_satisfied_traced self))"
      and "fst (satisfy_metrics self ! k) (best_dict self) = Inl e"
    using all_satisfied_traced_raised_by [of 0 "satisfy_metrics self" "best_dict self" e]
    by (auto simp: metrics_satisfied_traced_def)
  then have "SatisfyCall k (best_dict self) \<in> set (snd (metrics_satisfied_traced self))
      \<and> call_result self (SatisfyCall k (best_dict self)) = Inl e"
    by simp
  then show ?thesis by blast
qed

lemma evaluate_criteria_traced_calls:
  "snd (evaluate_criteria_traced self s) =
     snd (metric_decreases_traced self s) @
     (if fst (metric_decreases_traced self s) = Inr True
      then snd (metrics_satisfied_traced self) else [])"
  by (cases "metric_decreases_traced self s"; cases "metrics_satisfied_traced self")
    (auto simp: evaluate_criteria_traced_def split: sum.splits bool.splits)

lemma evaluate_criteria_raise_iff:
  "fst (evaluate_criteria self s) = Inl e \<longleftrightarrow>
     metric_decreases self s = Inl e
     \<or> (metric_decreases self s = Inr True \<and> metrics_satisfied self = Inl e)"
  by (auto simp: evaluate_criteria_def split: sum.splits bool.splits)

lemma metrics_satisfied_traced_fst:
  "fst (metrics_satisfied_traced self) = metrics_satisfied self"
  by (simp add: metrics_satisfied_traced_def metrics_satisfied_def all_satisfied_traced_fst)

section \<open>Failures of the metrics\<close>

text \<open>
  C5. If a metric invoked during a call to \<open>evaluate_criteria\<close> raises (the optimize
  metric, or one of the satisfy metrics), the call ends with exactly that exception
  and the object, in particular \<open>best_dict\<close>, is as before the call. Conversely every
  exception that escapes a call was raised by a metric invoked in it, and the object
  is unchanged: \<open>best_dict\<close> is written only after all metrics of the call returned.
\<close>

theorem failure_propagates_and_keeps_baseline:
  "(\<forall>c \<in> set (snd (evaluate_criteria_traced self s)). \<forall>e.
       call_result self c = Inl e \<longrightarrow> evaluate_criteria self s = (Inl e, self))
   \<and> (\<forall>e self'. evaluate_criteria self s = (Inl e, self') \<longrightarrow>
         self' = self
         \<and> (\<exists>c \<in> set (snd (evaluate_criteria_traced self s)). call_result self c = Inl e))"
proof (intro conjI ballI allI impI)
  fix c e
  assume c: "c \<in> set (snd (evaluate_criteria_traced self s))"
    and e: "call_result self c = Inl e"
  have "fst (evaluate_criteria self s) = Inl e"
  proof (cases "c \<in> set (snd (metric_decreases_traced self s))")
    case True
    from metric_decreases_traced_raise [OF True e]
    show ?thesis by (simp add: evaluate_criteria_raise_iff metric_decreases_traced_fst)
  next
    case False
    with c have d: "metric_decreases self s = Inr True"
      and m: "c \<in> set (snd (metrics_satisfied_traced self))"
      by (auto simp: evaluate_criteria_traced_calls metric_decreases_traced_fst
          split: if_splits)
    from metrics_satisfied_traced_raise [OF m e] d
    show ?thesis by (simp add: evaluate_criteria_raise_iff metrics_satisfied_traced_fst)
  qed
  then show "evaluate_criteria self s = (Inl e, self)"
    using evaluate_criteria_raise_state [of self s e] by (simp add: prod_eq_iff)
next
  fix e self'
  assume "evaluate_criteria self s = (Inl e, self')"
  then have r: "fst (evaluate_criteria self s) = Inl e"
    and s': "snd (evaluate_criteria self s) = self'" by simp_all
  from r s' show "self' = self"
    using evaluate_criteria_raise_state [of self s e] by simp
  from r consider "metric_decreases self s = Inl e"
    | "metric_decreases self s = Inr True" "metrics_satisfied self = Inl e"
    by (auto simp: evaluate_criteria_raise_iff)
  then show "\<exists>c \<in> set (snd (evaluate_criteria_traced self s)). call_result self c = Inl e"
  proof cases
    case 1
    then have "fst (metric_decreases_traced self s) = Inl e"
      by (simp add: metric_decreases_traced_fst)
    from metric_decreases_traced_raised_by [OF this]
    show ?thesis by (auto simp: evaluate_criteria_traced_calls)
  next
    case 2
    then have "fst (metrics_satisfied_traced self) = Inl e"
      by (simp add: metrics_satisfied_traced_fst)
    from metrics_satisfied_traced_raised_by [OF this] 2(1)
    show ?thesis by (auto simp: evaluate_criteria_traced_calls metric_decreases_traced_fst)
  qed
qed

text \<open>
  C9. In a call to \<open>evaluate_criteria\<close> a satisfy metric is invoked only when
  \<open>_metric_decreases\<close> returned \<open>True\<close>; while \<open>best_dict\<close> is the empty dictionary no
  metric is invoked at all; and unless the optimize metric decreases, the outcome
  of the call does not depend on the satisfy metrics, so one that would raise on
  the baseline raises nothing.
\<close>

theorem satisfy_metrics_short_circuit:
  "(\<forall>c \<in> set (snd (evaluate_criteria_traced self s)).
       is_satisfy_call c \<longrightarrow> metric_decreases self s = Inr True)
   \<and> (Mapping.is_empty (best_dict self) \<longrightarrow> snd (evaluate_criteria_traced self s) = [])
   \<and> (metric_decreases self s \<noteq> Inr True \<longrightarrow>
        (\<forall>sat'. fst (evaluate_criteria (self\<lparr>satisfy_metrics := sat'\<rparr>) s)
                 = fst (evaluate_criteria self s)))"
proof (intro conjI ballI allI impI)
  fix c
  assume "c \<in> set (snd (evaluate_criteria_traced self s))" and "is_satisfy_call c"
  then show "metric_decreases self s = Inr True"
    using metric_decreases_traced_calls [of c self s]
    by (auto simp: evaluate_criteria_traced_calls metric_decreases_traced_fst split: if_splits)
next
  assume "Mapping.is_empty (best_dict self)"
  then show "snd (evaluate_criteria_traced self s) = []"
    by (simp add: evaluate_criteria_traced_calls metric_decreases_traced_def)
next
  fix sat'
  assume n: "metric_decreases self s \<noteq> Inr True"
  have "metric_decreases (self\<lparr>satisfy_metrics := sat'\<rparr>) s = metric_decreases self s"
    by (simp add: metric_decreases_def split: sum.splits)
  with n show "fst (evaluate_criteria (self\<lparr>satisfy_metrics := sat'\<rparr>) s)
                 = fst (evaluate_criteria self s)"
    by (auto simp: evaluate_criteria_def split: sum.splits bool.splits)
qed

lemma raising_criterion_simps:
  "optimize_metric raising_criterion = subscript ''recall''"
  "satisfy_metrics raising_criterion = [(always_raises, 0.5)]"
  "best_dict raising_criterion = Mapping.empty"
  by (simp_all add: raising_criterion_def init_def)

lemma subscript_empty: "subscript k Mapping.empty = Inl (KeyError k)"
  by (simp add: subscript_def)

theorem failure_propagates_and_keeps_baseline_witness:
  "SatisfyCall 0 (score_dict_of 0.9 0.5)
       \<in> set (snd (evaluate_criteria_traced
           (raising_criterion\<lparr>best_dict := score_dict_of 0.9 0.5\<rparr>) (score_dict_of 0.3 0.4)))
   \<and> call_result (raising_criterion\<lparr>best_dict := score_dict_of 0.9 0.5\<rparr>)
        (SatisfyCall 0 (score_dict_of 0.9 0.5)) = Inl (TypeError ''unsupported'')
   \<and> evaluate_criteria (raising_criterion\<lparr>best_dict := score_dict_of 0.9 0.5\<rparr>)
        (score_dict_of 0.3 0.4)
       = (Inl (TypeError ''unsupported''), raising_criterion\<lparr>best_dict := score_dict_of 0.9 0.5\<rparr>)
   \<and> OptimizeCall Mapping.empty
       \<in> set (snd (evaluate_criteria_traced
           (criterion\<lparr>best_dict := score_dict_of 0.9 0.5\<rparr>) Mapping.empty))
   \<and> evaluate_criteria (criterion\<lparr>best_dict := score_dict_of 0.9 0.5\<rparr>) Mapping.empty
       = (Inl (KeyError ''recall''), criterion\<lparr>best_dict := score_dict_of 0.9 0.5\<rparr>)"
proof -
  let ?m = "raising_criterion\<lparr>best_dict := score_dict_of 0.9 0.5\<rparr>"
  let ?n = "criterion\<lparr>best_dict := score_dict_of 0.9 0.5\<rparr>"
  have 1: "SatisfyCall 0 (score_dict_of 0.9 0.5)
       \<in> set (snd (evaluate_criteria_traced ?m (score_dict_of 0.3 0.4)))"
    by (simp add: evaluate_criteria_traced_def metric_decreases_traced_def
        metrics_satisfied_traced_def raising_criterion_simps score_dict_of_simps
        always_raises_def)
  have 2: "call_result ?m (SatisfyCall 0 (score_dict_of 0.9 0.5))
       = Inl (TypeError ''unsupported'')"
    by (simp add: raising_criterion_simps always_raises_def)
  have 3: "OptimizeCall Mapping.empty \<in> set (snd (evaluate_criteria_traced ?n Mapping.empty))"
    by (simp add: evaluate_criteria_traced_def metric_decreases_traced_def
        criterion_simps score_dict_of_simps subscript_empty)
  have 4: "call_result ?n (OptimizeCall Mapping.empty) = Inl (KeyError ''recall'')"
    by (simp add: criterion_simps subscript_empty)
  from failure_propagates_and_keeps_baseline [of ?m "score_dict_of 0.3 0.4"] 1 2
  have 5: "evaluate_criteria ?m (score_dict_of 0.3 0.4) = (Inl (TypeError ''unsupported''), ?m)"
    by blast
  from failure_propagates_and_keeps_baseline [of ?n Mapping.empty] 3 4
  have 6: "evaluate_criteria ?n Mapping.empty = (Inl (KeyError ''recall''), ?n)"
    by blast
  from 1 2 3 5 6 show ?thesis by blast
qed

theorem satisfy_metrics_short_circuit_witness:
  "Mapping.is_empty (best_dict raising_criterion)
   \<and> snd (evaluate_criteria_traced raising_criterion (score_dict_of 0.3 0.4)) = []
   \<and> always_raises (score_dict_of 0.9 0.5) = Inl (TypeError ''unsupported'')
   \<and> metric_decreases (raising_criterion\<lparr>best_dict := score_dict_of 0.9 0.5\<rparr>)
        (score_dict_of 0.3 0.7) \<noteq> Inr True
   \<and> fst (evaluate_criteria (raising_criterion\<lparr>best_dict := score_dict_of 0.9 0.5\<rparr>)
        (score_dict_of 0.3 0.7)) = Inr False
   \<and> is_satisfy_call (SatisfyCall 0 (score_dict_of 0.9 0.5))
   \<and> SatisfyCall 0 (score_dict_of 0.9 0.5)
       \<in> set (snd (evaluate_criteria_traced
           (raising_criterion\<lparr>best_dict := score_dict_of 0.9 0.5\<rparr>) (score_dict_of 0.3 0.4)))
   \<and> metric_decreases (raising_criterion\<lparr>best_dict := score_dict_of 0.9 0.5\<rparr>)
        (score_dict_of 0.3 0.4) = Inr True"
proof -
  let ?m = "raising_criterion\<lparr>best_dict := score_dict_of 0.9 0.5\<rparr>"
  have 1: "Mapping.is_empty (best_dict raising_criterion)"
    by (simp add: raising_criterion_simps)
  with satisfy_metrics_short_circuit [of raising_criterion "score_dict_of 0.3 0.4"]
  have 2: "snd (evaluate_criteria_traced raising_criterion (score_dict_of 0.3 0.4)) = []"
    by blast
  have 3: "always_raises (score_dict_of 0.9 0.5) = Inl (TypeError ''unsupported'')"
    by (simp add: always_raises_def)
  have 4: "metric_decreases ?m (score_dict_of 0.3 0.7) \<noteq> Inr True"
    by (simp add: metric_decreases_def raising_criterion_simps score_dict_of_simps)
  have "fst (evaluate_criteria (?m\<lparr>satisfy_metrics := []\<rparr>) (score_dict_of 0.3 0.7)) = Inr False"
    by (simp add: evaluate_criteria_def metric_decreases_def raising_criterion_simps
        score_dict_of_simps)
  with satisfy_metrics_short_circuit [of ?m "score_dict_of 0.3 0.7"] 4
  have 5: "fst (evaluate_criteria ?m (score_dict_of 0.3 0.7)) = Inr False"
    by metis
  have 6: "is_satisfy_call (SatisfyCall 0 (score_dict_of 0.9 0.5))" by simp
  have 7: "SatisfyCall 0 (score_dict_of 0.9 0.5)
       \<in> set (snd (evaluate_criteria_traced ?m (score_dict_of 0.3 0.4)))"
    by (simp add: evaluate_criteria_traced_def metric_decreases_traced_def
        metrics_satisfied_traced_def raising_criterion_simps score_dict_of_simps
        always_raises_def)
  with satisfy_metrics_short_circuit [of ?m "score_dict_of 0.3 0.4"] 6
  have 8: "metric_decreases ?m (score_dict_of 0.3 0.4) = Inr True"
    by blast
  from 1 2 3 4 5 6 7 8 show ?thesis by blast
qed

section \<open>Confidence of a binary classification\<close>

subsection \<open>Rounding to the nearest double\<close>

lemma bitlen_numeral_simps:
  "bitlen 1 = 1"
  "bitlen (numeral (Num.Bit0 n)) = bitlen (numeral n) + 1"
  "bitlen (numeral (Num.Bit1 n)) = bitlen (numeral n) + 1"
  by (subst compute_bitlen, simp)+

lemma ilog2_bounds:
  assumes "0 < x"
  shows "2 powi ilog2 x \<le> x" and "x < 2 powi (ilog2 x + 1)"
proof -
  have "2 powi ilog2 x \<le> x \<and> x < 2 powi (ilog2 x + 1)"
  proof (cases "1 \<le> x")
    case True
    define n where "n = \<lfloor>x\<rfloor>"
    define b where "b = bitlen n"
    from True have n: "0 < n" by (simp add: n_def)
    from bitlen_bounds [OF n] have lo: "2 ^ nat (b - 1) \<le> n" and hi: "n < 2 ^ nat b"
      by (simp_all add: b_def)
    from n have b: "1 \<le> b" using bitlen_eq_zero_iff [of n] bitlen_nonneg [of n]
      by (simp add: b_def)
    have il: "ilog2 x = b - 1" using True by (simp add: ilog2_def b_def n_def)
    from lo have "(2::real) ^ nat (b - 1) \<le> of_int n"
      by (metis of_int_le_iff of_int_numeral of_int_power)
    also have "of_int n \<le> x" by (simp add: n_def)
    finally have 1: "2 powi (b - 1) \<le> x" using b by (simp add: power_int_def)
    from hi have "n + 1 \<le> 2 ^ nat b" by simp
    then have "(of_int (n + 1) :: real) \<le> 2 ^ nat b"
      by (metis of_int_le_iff of_int_numeral of_int_power)
    moreover have "x < of_int (n + 1)" by (simp add: n_def)
    ultimately have 2: "x < 2 powi b" using b by (simp add: power_int_def)
    from 1 2 il show ?thesis by simp
  next
    case False
    define c where "c = \<lceil>1 / x\<rceil>"
    define n where "n = c - 1"
    define b where "b = bitlen n"
    from False assms have y: "1 < 1 / x" by simp
    then have "1 < c" unfolding c_def by (simp add: less_ceiling_iff)
    then have n: "0 < n" by (simp add: n_def)
    from bitlen_bounds [OF n] have lo: "2 ^ nat (b - 1) \<le> n" and hi: "n < 2 ^ nat b"
      by (simp_all add: b_def)
    from n have b: "1 \<le> b" using bitlen_eq_zero_iff [of n] bitlen_nonneg [of n]
      by (simp add: b_def)
    have il: "ilog2 x = - b" using False by (simp add: ilog2_def b_def n_def c_def)
    from hi have "c \<le> 2 ^ nat b" by (simp add: n_def)
    then have "(of_int c :: real) \<le> 2 ^ nat b"
      by (metis of_int_le_iff of_int_numeral of_int_power)
    moreover have "1 / x \<le> of_int c" by (simp add: c_def)
    ultimately have "1 / x \<le> 2 ^ nat b" by linarith
    with assms have "1 / 2 ^ nat b \<le> x"
      by (simp add: field_simps)
    then have 1: "2 powi (- b) \<le> x"
      using b by (simp add: power_int_def field_simps)
    from lo have "(2::real) ^ nat (b - 1) \<le> of_int n"
      by (metis of_int_le_iff of_int_numeral of_int_power)
    moreover have "of_int n < 1 / x" unfolding n_def c_def
      by (metis ceiling_correct diff_less_eq of_int_1 of_int_diff)
    ultimately have "2 ^ nat (b - 1) < 1 / x" by linarith
    with assms have "x < 1 / 2 ^ nat (b - 1)"
      by (simp add: field_simps)
    moreover have "(2::real) powi (- b + 1) = 1 / 2 ^ nat (b - 1)"
    proof (cases "b = 1")
      case True
      then show ?thesis by simp
    next
      case False
      with b have "- b + 1 < 0" "nat (- (- b + 1)) = nat (b - 1)" by simp_all
      then show ?thesis by (simp add: power_int_def field_simps)
    qed
    ultimately have 2: "x < 2 powi (- b + 1)" by simp
    from 1 2 il show ?thesis by simp
  qed
  then show "2 powi ilog2 x \<le> x" and "x < 2 powi (ilog2 x + 1)" by simp_all
qed

lemma ilog2_unique:
  assumes "2 powi k \<le> x" and "x < 2 powi (k + 1)"
  shows "ilog2 x = k"
proof -
  have "0 < (2::real) powi k" by simp
  with assms(1) have pos: "0 < x" by linarith
  note b = ilog2_bounds [OF pos]
  have "\<not> ilog2 x < k"
  proof
    assume "ilog2 x < k"
    then have "(2::real) powi (ilog2 x + 1) \<le> 2 powi k"
      by (intro power_int_increasing) simp_all
    with b(2) assms(1) show False by linarith
  qed
  moreover have "\<not> k < ilog2 x"
  proof
    assume "k < ilog2 x"
    then have "(2::real) powi (k + 1) \<le> 2 powi ilog2 x"
      by (intro power_int_increasing) simp_all
    with b(1) assms(2) show False by linarith
  qed
  ultimately show ?thesis by simp
qed

lemma ilog2_mono:
  assumes "0 < x" and "x \<le> y"
  shows "ilog2 x \<le> ilog2 y"
proof (rule ccontr)
  assume "\<not> ilog2 x \<le> ilog2 y"
  then have "(2::real) powi (ilog2 y + 1) \<le> 2 powi ilog2 x"
    by (intro power_int_increasing) simp_all
  moreover from assms have "0 < y" by simp
  ultimately show False
    using ilog2_bounds(1) [OF assms(1)] ilog2_bounds(2) [of y] assms(2) by linarith
qed

lemma round_half_even_of_int [simp]: "round_half_even (of_int n) = n"
  by (simp add: round_half_even_def)

lemma round_half_even_bounds:
  "\<lfloor>x\<rfloor> \<le> round_half_even x" "round_half_even x \<le> \<lfloor>x\<rfloor> + 1"
  by (simp_all add: round_half_even_def Let_def)

lemma round_half_even_mono:
  assumes "x \<le> y"
  shows "round_half_even x \<le> round_half_even y"
proof (cases "\<lfloor>x\<rfloor> = \<lfloor>y\<rfloor>")
  case True
  with assms show ?thesis by (auto simp: round_half_even_def Let_def)
next
  case False
  with assms have "\<lfloor>x\<rfloor> + 1 \<le> \<lfloor>y\<rfloor>" using floor_mono [OF assms] by linarith
  with round_half_even_bounds(2) [of x] round_half_even_bounds(1) [of y]
  show ?thesis by linarith
qed

lemma ulp_exponent_mono:
  assumes "0 < x" and "x \<le> y"
  shows "ulp_exponent x \<le> ulp_exponent y"
  using ilog2_mono [of "\<bar>x\<bar>" "\<bar>y\<bar>"] assms by (simp add: ulp_exponent_def)

lemma round_to_double_0 [simp]: "round_to_double 0 = 0"
  by (simp add: round_to_double_def)

lemma round_to_double_exact:
  assumes "x = of_int k * 2 powi j" and "ulp_exponent x \<le> j"
  shows "round_to_double x = x"
proof (cases "x = 0")
  case True
  then show ?thesis by simp
next
  case False
  define e where "e = ulp_exponent x"
  from assms(2) have d: "0 \<le> j - e" by (simp add: e_def)
  have "(2::real) powi j = 2 powi (j - e) * 2 powi e"
    by (simp flip: power_int_add)
  then have "x / 2 powi e = of_int k * 2 powi (j - e)"
    by (simp add: assms(1))
  also have "\<dots> = of_int (k * 2 ^ nat (j - e))"
    using d by (simp add: power_int_def)
  finally have q: "x / 2 powi e = of_int (k * 2 ^ nat (j - e))" .
  have "round_to_double x = of_int (round_half_even (x / 2 powi e)) * 2 powi e"
    using False by (simp add: round_to_double_def e_def)
  also have "\<dots> = (x / 2 powi e) * 2 powi e"
    by (simp only: q round_half_even_of_int)
  also have "\<dots> = x" by simp
  finally show ?thesis .
qed

lemma round_to_double_multiple:
  "round_to_double x = of_int (round_half_even (x / 2 powi ulp_exponent x)) * 2 powi ulp_exponent x"
  by (simp add: round_to_double_def round_half_even_def)

lemma round_to_double_nonneg:
  assumes "0 \<le> x"
  shows "0 \<le> round_to_double x"
proof -
  from assms have "0 \<le> x / 2 powi ulp_exponent x" by simp
  then have "round_half_even 0 \<le> round_half_even (x / 2 powi ulp_exponent x)"
    by (rule round_half_even_mono)
  then have "0 \<le> round_half_even (x / 2 powi ulp_exponent x)"
    by (simp add: round_half_even_def)
  then show ?thesis by (simp add: round_to_double_multiple)
qed

lemma round_to_double_upper:
  assumes "0 < x"
  shows "round_to_double x \<le> 2 powi (ulp_exponent x + 53)"
proof -
  define e where "e = ulp_exponent x"
  have "ilog2 x \<le> e + 52" using assms by (simp add: e_def ulp_exponent_def)
  then have "(2::real) powi (ilog2 x + 1) \<le> 2 powi (e + 53)"
    by (intro power_int_increasing) simp_all
  with ilog2_bounds(2) [OF assms] have "x \<le> 2 powi (e + 53)" by linarith
  also have "(2::real) powi (e + 53) = 2 ^ 53 * 2 powi e"
    by (simp add: power_int_add)
  finally have "x / 2 powi e \<le> of_int (2 ^ 53)"
    by (simp add: field_simps)
  then have "round_half_even (x / 2 powi e) \<le> round_half_even (of_int (2 ^ 53))"
    by (rule round_half_even_mono)
  then have "round_half_even (x / 2 powi e) \<le> 2 ^ 53"
    by (simp only: round_half_even_of_int)
  then have "(of_int (round_half_even (x / 2 powi e)) :: real) \<le> 2 ^ 53"
    by (metis of_int_le_iff of_int_numeral of_int_power)
  then have "of_int (round_half_even (x / 2 powi e)) * 2 powi e \<le> 2 ^ 53 * (2::real) powi e"
    by (intro mult_right_mono) simp_all
  then show ?thesis
    by (simp add: round_to_double_multiple power_int_add flip: e_def)
qed

lemma round_to_double_lower:
  assumes "0 < x" and "- 1022 \<le> ilog2 x"
  shows "2 powi (ulp_exponent x + 52) \<le> round_to_double x"
proof -
  define e where "e = ulp_exponent x"
  have il: "ilog2 x = e + 52" using assms by (simp add: e_def ulp_exponent_def)
  have "(2::real) powi (e + 52) = 2 ^ 52 * 2 powi e"
    by (simp add: power_int_add)
  with ilog2_bounds(1) [OF assms(1)] il have "of_int (2 ^ 52) \<le> x / 2 powi e"
    by (simp add: field_simps)
  then have "round_half_even (of_int (2 ^ 52)) \<le> round_half_even (x / 2 powi e)"
    by (rule round_half_even_mono)
  then have "2 ^ 52 \<le> round_half_even (x / 2 powi e)"
    by (simp only: round_half_even_of_int)
  then have "(2::real) ^ 52 \<le> of_int (round_half_even (x / 2 powi e))"
    by (metis of_int_le_iff of_int_numeral of_int_power)
  then have "2 ^ 52 * (2::real) powi e \<le> of_int (round_half_even (x / 2 powi e)) * 2 powi e"
    by (intro mult_right_mono) simp_all
  then show ?thesis
    by (simp add: round_to_double_multiple power_int_add flip: e_def)
qed

lemma round_to_double_mono:
  assumes "0 \<le> x" and "x \<le> y"
  shows "round_to_double x \<le> round_to_double y"
proof (cases "x = 0")
  case True
  with assms round_to_double_nonneg [of y] show ?thesis by simp
next
  case False
  with assms have x: "0 < x" and y: "0 < y" by simp_all
  from ulp_exponent_mono [OF x assms(2)] consider
    "ulp_exponent x = ulp_exponent y" | "ulp_exponent x < ulp_exponent y" by linarith
  then show ?thesis
  proof cases
    case 1
    from assms(2) have "x / 2 powi ulp_exponent y \<le> y / 2 powi ulp_exponent y"
      by (simp add: divide_right_mono)
    then have "round_half_even (x / 2 powi ulp_exponent y)
        \<le> round_half_even (y / 2 powi ulp_exponent y)"
      by (rule round_half_even_mono)
    then have "(of_int (round_half_even (x / 2 powi ulp_exponent y)) :: real)
        \<le> of_int (round_half_even (y / 2 powi ulp_exponent y))"
      by simp
    then have "of_int (round_half_even (x / 2 powi ulp_exponent y)) * (2::real) powi ulp_exponent y
        \<le> of_int (round_half_even (y / 2 powi ulp_exponent y)) * 2 powi ulp_exponent y"
      by (intro mult_right_mono) simp_all
    then show ?thesis
      using x y by (simp add: round_to_double_def 1)
  next
    case 2
    then have n: "- 1022 \<le> ilog2 y" using y by (simp add: ulp_exponent_def max_def split: if_splits)
    from 2 have "(2::real) powi (ulp_exponent x + 53) \<le> 2 powi (ulp_exponent y + 52)"
      by (intro power_int_increasing) simp_all
    with round_to_double_upper [OF x] round_to_double_lower [OF y n]
    show ?thesis by linarith
  qed
qed

lemma ulp_exponent_double:
  assumes "x \<noteq> 0"
  shows "ulp_exponent (2 * x) \<le> ulp_exponent x + 1"
proof -
  from assms have pos: "0 < \<bar>x\<bar>" by simp
  have "2 powi (ilog2 \<bar>x\<bar> + 1) \<le> \<bar>2 * x\<bar>"
    using ilog2_bounds(1) [OF pos] by (simp add: power_int_add)
  moreover have "\<bar>2 * x\<bar> < 2 powi (ilog2 \<bar>x\<bar> + 1 + 1)"
    using ilog2_bounds(2) [OF pos] by (simp add: power_int_add)
  ultimately have "ilog2 \<bar>2 * x\<bar> = ilog2 \<bar>x\<bar> + 1" by (rule ilog2_unique)
  then show ?thesis by (simp add: ulp_exponent_def)
qed

lemma round_to_double_double:
  assumes "round_to_double x = x"
  shows "round_to_double (2 * x) = 2 * x"
proof (cases "x = 0")
  case True
  then show ?thesis by simp
next
  case False
  define k where "k = round_half_even (x / 2 powi ulp_exponent x)"
  from assms have "x = of_int k * 2 powi ulp_exponent x"
    using round_to_double_multiple [of x] by (simp add: k_def)
  then have "2 * x = of_int k * 2 powi (ulp_exponent x + 1)"
    by (simp add: power_int_add)
  then show ?thesis
    using ulp_exponent_double [OF False] by (rule round_to_double_exact)
qed

lemma ilog2_ge:
  assumes "2 powi k \<le> x"
  shows "k \<le> ilog2 x"
proof (rule ccontr)
  assume "\<not> k \<le> ilog2 x"
  then have "(2::real) powi (ilog2 x + 1) \<le> 2 powi k"
    by (intro power_int_increasing) simp_all
  moreover have "0 < (2::real) powi k" by simp
  with assms have "0 < x" by linarith
  ultimately show False using ilog2_bounds(2) [of x] assms by linarith
qed

lemma ilog2_le:
  assumes "0 < x" and "x < 2 powi (k + 1)"
  shows "ilog2 x \<le> k"
proof (rule ccontr)
  assume "\<not> ilog2 x \<le> k"
  then have "(2::real) powi (k + 1) \<le> 2 powi ilog2 x"
    by (intro power_int_increasing) simp_all
  with ilog2_bounds(1) [OF assms(1)] assms(2) show False by linarith
qed

lemma float_of_real_Finite:
  assumes "\<bar>round_to_double x\<bar> < overflow_threshold"
  shows "float_of_real x = Finite (round_to_double x)"
  using assms by (auto simp: float_of_real_def Let_def)

lemma float_of_real_exact:
  assumes "round_to_double x = x" and "\<bar>x\<bar> < overflow_threshold"
  shows "float_of_real x = Finite x"
  using assms float_of_real_Finite [of x] by simp

lemma small_lt_overflow: "\<bar>x\<bar> \<le> 2 \<Longrightarrow> \<bar>x\<bar> < overflow_threshold"
proof -
  assume "\<bar>x\<bar> \<le> 2"
  moreover have "(2::real) ^ 1 < 2 ^ 1024" by (rule power_strict_increasing) simp_all
  ultimately show ?thesis by (simp add: overflow_threshold_def)
qed

lemma round_to_double_1 [simp]: "round_to_double 1 = 1"
  using round_to_double_exact [of 1 1 0]
  by (simp add: ulp_exponent_def ilog2_def bitlen_numeral_simps)

text \<open>A double in [1/2, 1] is a multiple of 2^-53.\<close>

lemma double_grid:
  assumes "round_to_double x = x" and "1 / 2 \<le> x"
  shows "\<exists>k. x = of_int k * 2 powi (- 53)"
proof -
  from assms have pos: "0 < x" by simp
  have "2 powi (- 1) \<le> x" using assms(2) by (simp add: power_int_minus)
  then have "- 1 \<le> ilog2 x" by (rule ilog2_ge)
  then have e: "- 53 \<le> ulp_exponent x" using pos by (simp add: ulp_exponent_def)
  define k where "k = round_half_even (x / 2 powi ulp_exponent x)"
  define d where "d = ulp_exponent x + 53"
  from e have d: "0 \<le> d" by (simp add: d_def)
  from assms(1) have "x = of_int k * 2 powi ulp_exponent x"
    using round_to_double_multiple [of x] by (simp add: k_def)
  also have "(2::real) powi ulp_exponent x = 2 powi d * 2 powi (- 53)"
    by (subst power_int_add [symmetric]) (simp_all add: d_def)
  also have "(2::real) powi d = of_int (2 ^ nat d)" using d by (simp add: power_int_def)
  finally have "x = of_int (k * 2 ^ nat d) * 2 powi (- 53)" by simp
  then show ?thesis ..
qed

lemma ulp_exponent_le:
  assumes "x \<noteq> 0" and "\<bar>x\<bar> < 2 powi (k + 1)" and "- 1022 \<le> k"
  shows "ulp_exponent x \<le> k - 52"
  using ilog2_le [of "\<bar>x\<bar>" k] assms by (simp add: ulp_exponent_def)

text \<open>For a double x in [1/2, 1], both 1 - x and 2 x - 1 are doubles.\<close>

lemma one_minus_exact:
  assumes "round_to_double x = x" and "1 / 2 \<le> x" and "x \<le> 1"
  shows "round_to_double (1 - x) = 1 - x"
proof (cases "x = 1")
  case True
  then show ?thesis by simp
next
  case False
  from double_grid [OF assms(1,2)] obtain k where k: "x = of_int k * 2 powi (- 53)" ..
  have "(1::real) = of_int (2 ^ 53) * 2 powi (- 53)" by (simp add: power_int_minus)
  with k have "1 - x = of_int (2 ^ 53 - k) * 2 powi (- 53)"
    by (simp add: algebra_simps)
  moreover have "ulp_exponent (1 - x) \<le> - 1 - 52"
  proof (rule ulp_exponent_le)
    show "1 - x \<noteq> 0" using False by simp
    show "\<bar>1 - x\<bar> < 2 powi (- 1 + 1)" using assms by simp
    show "(- 1022 :: int) \<le> - 1" by simp
  qed
  then have "ulp_exponent (1 - x) \<le> - 53" by simp
  ultimately show ?thesis by (rule round_to_double_exact)
qed

lemma two_x_minus_one_exact:
  assumes "round_to_double x = x" and "1 / 2 \<le> x" and "x \<le> 1"
  shows "round_to_double (2 * x - 1) = 2 * x - 1"
proof (cases "2 * x - 1 = 0")
  case True
  then show ?thesis by simp
next
  case False
  from double_grid [OF assms(1,2)] obtain k where k: "x = of_int k * 2 powi (- 53)" ..
  have "(1::real) = of_int (2 ^ 52) * 2 powi (- 52)" by (simp add: power_int_minus)
  moreover have "2 * x = of_int k * 2 powi (- 52)"
    by (simp add: k power_int_minus)
  ultimately have "2 * x - 1 = of_int (k - 2 ^ 52) * 2 powi (- 52)"
    by (simp add: algebra_simps)
  moreover have "ulp_exponent (2 * x - 1) \<le> 0 - 52"
  proof (rule ulp_exponent_le)
    show "2 * x - 1 \<noteq> 0" by (rule False)
    show "\<bar>2 * x - 1\<bar> < 2 powi (0 + 1)" using assms by simp
    show "(- 1022 :: int) \<le> 0" by simp
  qed
  then have "ulp_exponent (2 * x - 1) \<le> - 52" by simp
  ultimately show ?thesis by (rule round_to_double_exact)
qed

lemmas double_eval = round_to_double_def ulp_exponent_def ilog2_def bitlen_numeral_simps
  round_half_even_def Let_def power_int_minus float_of_real_def overflow_threshold_def
  is_double_def binary_classification_confidence_def


text \<open>The rounding on some well-known values.\<close>

lemma round_to_double_examples:
  "round_to_double 0.1 = 3602879701896397 / 2 ^ 55"
  "round_to_double (round_to_double 0.1 + round_to_double 0.2) = 5404319552844596 / 2 ^ 54"
  "round_to_double (2 ^ 53 + 1) = 2 ^ 53"
  "round_to_double (2 ^ 53 + 3) = 2 ^ 53 + 4"
  "round_to_double (- (2 ^ 53 + 3)) = - (2 ^ 53 + 4)"
  by (simp_all add: double_eval)


subsection \<open>The confidence of doubles in the unit interval\<close>

lemma is_doubleD:
  "is_double x \<Longrightarrow> round_to_double x = x"
  "is_double x \<Longrightarrow> \<bar>x\<bar> < overflow_threshold"
  by (simp_all add: is_double_def)

lemma float_mul_2:
  assumes "is_double x" and "\<bar>x\<bar> \<le> 1"
  shows "float_mul (Finite 2) (Finite x) = Finite (2 * x)"
proof -
  from assms(2) have "\<bar>2 * x\<bar> \<le> 2" by simp
  then have "\<bar>2 * x\<bar> < overflow_threshold" by (rule small_lt_overflow)
  with round_to_double_double [OF is_doubleD(1) [OF assms(1)]]
  show ?thesis by (simp add: float_of_real_exact)
qed

lemma confidence_upper:
  assumes "is_double x" and "1 / 2 \<le> x" and "x \<le> 1"
  shows "binary_classification_confidence [Finite x] = [Finite (2 * x - 1)]"
proof -
  from assms have m: "float_mul (Finite 2) (Finite x) = Finite (2 * x)"
    by (intro float_mul_2) simp_all
  from assms have "\<bar>2 * x - 1\<bar> \<le> 2" by simp
  then have "\<bar>2 * x - 1\<bar> < overflow_threshold" by (rule small_lt_overflow)
  with two_x_minus_one_exact [OF is_doubleD(1) [OF assms(1)] assms(2,3)]
  have "float_of_real (2 * x - 1) = Finite (2 * x - 1)" by (rule float_of_real_exact)
  with m assms(2) show ?thesis by (simp add: binary_classification_confidence_def)
qed

lemma round_to_double_unit:
  assumes "0 \<le> x" and "x \<le> 1"
  shows "0 \<le> round_to_double x" and "round_to_double x \<le> 1"
  using round_to_double_mono [of 0 x] round_to_double_mono [of x 1] assms by simp_all

lemma confidence_lower:
  assumes "is_double x" and "0 \<le> x" and "x < 1 / 2"
  shows "binary_classification_confidence [Finite x] = [Finite (round_to_double (1 - 2 * x))]"
proof -
  from assms have m: "float_mul (Finite 2) (Finite x) = Finite (2 * x)"
    by (intro float_mul_2) simp_all
  from assms have "0 \<le> 1 - 2 * x" "1 - 2 * x \<le> 1" by simp_all
  from round_to_double_unit [OF this] have "\<bar>round_to_double (1 - 2 * x)\<bar> \<le> 2" by simp
  then have "\<bar>round_to_double (1 - 2 * x)\<bar> < overflow_threshold" by (rule small_lt_overflow)
  then have "float_of_real (1 - 2 * x) = Finite (round_to_double (1 - 2 * x))"
    by (rule float_of_real_Finite)
  with m assms(3) show ?thesis by (simp add: binary_classification_confidence_def)
qed

lemma confidence_abs:
  assumes "is_double x" and "0 \<le> x" and "x \<le> 1"
  shows "binary_classification_confidence [Finite x] = [Finite (round_to_double \<bar>2 * x - 1\<bar>)]"
proof (cases "1 / 2 \<le> x")
  case True
  with assms have "round_to_double (2 * x - 1) = 2 * x - 1" "\<bar>2 * x - 1\<bar> = 2 * x - 1"
    by (simp_all add: two_x_minus_one_exact is_doubleD)
  with confidence_upper [OF assms(1) True assms(3)] show ?thesis by simp
next
  case False
  then have "\<bar>2 * x - 1\<bar> = 1 - 2 * x" by simp
  with confidence_lower [OF assms(1,2)] False show ?thesis by simp
qed

lemma one_minus_double:
  assumes "is_double x" and "1 / 2 \<le> x" and "x \<le> 1"
  shows "is_double (1 - x)" and "float_sub (Finite 1) (Finite x) = Finite (1 - x)"
proof -
  from assms have "\<bar>1 - x\<bar> \<le> 2" by simp
  then have b: "\<bar>1 - x\<bar> < overflow_threshold" by (rule small_lt_overflow)
  note e = one_minus_exact [OF is_doubleD(1) [OF assms(1)] assms(2,3)]
  from e b show "is_double (1 - x)" by (simp add: is_double_def)
  from e b show "float_sub (Finite 1) (Finite x) = Finite (1 - x)"
    by (simp add: float_of_real_exact)
qed

text \<open>
  C10, amended. \<open>binary_classification_confidence\<close> maps each element of the list on
  its own. For a double \<open>p\<close> in [0, 1] the result is \<open>2p - 1\<close> exactly when \<open>p >= 0.5\<close>
  and the double nearest to \<open>1 - 2p\<close> otherwise. For a double \<open>p\<close> with
  \<open>0.5 <= p <= 1\<close> the subtraction \<open>1 - p\<close> is exact and the confidence of \<open>1 - p\<close> is
  that of \<open>p\<close>. The confidence never decreases as \<open>p\<close> moves away from 0.5.
\<close>

theorem binary_classification_confidence_doubles:
  "length (binary_classification_confidence ps) = length ps
   \<and> (\<forall>i < length ps.
         [binary_classification_confidence ps ! i] = binary_classification_confidence [ps ! i])
   \<and> (\<forall>x. is_double x \<and> 1 / 2 \<le> x \<and> x \<le> 1 \<longrightarrow>
         binary_classification_confidence [Finite x] = [Finite (2 * x - 1)])
   \<and> (\<forall>x. is_double x \<and> 0 \<le> x \<and> x < 1 / 2 \<longrightarrow>
         binary_classification_confidence [Finite x] = [Finite (round_to_double (1 - 2 * x))])
   \<and> (\<forall>x. is_double x \<and> 1 / 2 \<le> x \<and> x \<le> 1 \<longrightarrow>
         float_sub (Finite 1) (Finite x) = Finite (1 - x)
         \<and> binary_classification_confidence [float_sub (Finite 1) (Finite x)]
             = binary_classification_confidence [Finite x])
   \<and> (\<forall>x y a b. is_double x \<and> is_double y \<and> 0 \<le> x \<and> x \<le> 1 \<and> 0 \<le> y \<and> y \<le> 1
         \<and> \<bar>x - 1 / 2\<bar> \<le> \<bar>y - 1 / 2\<bar>
         \<and> binary_classification_confidence [Finite x] = [a]
         \<and> binary_classification_confidence [Finite y] = [b]
         \<longrightarrow> float_ge b a)"
proof (intro conjI allI impI)
  show "length (binary_classification_confidence ps) = length ps"
    by (simp add: binary_classification_confidence_def)
next
  fix i assume "i < length ps"
  then show "[binary_classification_confidence ps ! i]
      = binary_classification_confidence [ps ! i]"
    by (simp add: binary_classification_confidence_def)
next
  fix x assume "is_double x \<and> 1 / 2 \<le> x \<and> x \<le> 1"
  then have "is_double x" "1 / 2 \<le> x" "x \<le> 1" by simp_all
  then show "binary_classification_confidence [Finite x] = [Finite (2 * x - 1)]"
    by (rule confidence_upper)
next
  fix x assume "is_double x \<and> 0 \<le> x \<and> x < 1 / 2"
  then have "is_double x" "0 \<le> x" "x < 1 / 2" by simp_all
  then show "binary_classification_confidence [Finite x]
      = [Finite (round_to_double (1 - 2 * x))]"
    by (rule confidence_lower)
next
  fix x assume "is_double x \<and> 1 / 2 \<le> x \<and> x \<le> 1"
  then have h: "is_double x" "1 / 2 \<le> x" "x \<le> 1" by simp_all
  show s: "float_sub (Finite 1) (Finite x) = Finite (1 - x)"
    by (rule one_minus_double(2) [OF h])
  have d: "is_double (1 - x)" by (rule one_minus_double(1) [OF h])
  from h have "binary_classification_confidence [Finite (1 - x)]
      = [Finite (round_to_double \<bar>2 * (1 - x) - 1\<bar>)]"
    by (intro confidence_abs d) simp_all
  also have "\<bar>2 * (1 - x) - 1\<bar> = \<bar>2 * x - 1\<bar>" by simp
  also from h have "[Finite (round_to_double \<bar>2 * x - 1\<bar>)]
      = binary_classification_confidence [Finite x]"
    by (intro confidence_abs [symmetric]) simp_all
  finally show "binary_classification_confidence [float_sub (Finite 1) (Finite x)]
      = binary_classification_confidence [Finite x]"
    by (simp only: s)
next
  fix x y a b
  assume h: "is_double x \<and> is_double y \<and> 0 \<le> x \<and> x \<le> 1 \<and> 0 \<le> y \<and> y \<le> 1
         \<and> \<bar>x - 1 / 2\<bar> \<le> \<bar>y - 1 / 2\<bar>
         \<and> binary_classification_confidence [Finite x] = [a]
         \<and> binary_classification_confidence [Finite y] = [b]"
  then have hx: "is_double x" "0 \<le> x" "x \<le> 1" and hy: "is_double y" "0 \<le> y" "y \<le> 1"
    by simp_all
  from h confidence_abs [OF hx] confidence_abs [OF hy]
  have a: "a = Finite (round_to_double \<bar>2 * x - 1\<bar>)"
    and b: "b = Finite (round_to_double \<bar>2 * y - 1\<bar>)"
    by simp_all
  from h have "\<bar>x - 1 / 2\<bar> \<le> \<bar>y - 1 / 2\<bar>" by blast
  then have "\<bar>2 * x - 1\<bar> \<le> \<bar>2 * y - 1\<bar>" by linarith
  then have "round_to_double \<bar>2 * x - 1\<bar> \<le> round_to_double \<bar>2 * y - 1\<bar>"
    by (intro round_to_double_mono) simp_all
  then show "float_ge b a" by (simp add: a b)
qed


theorem binary_classification_confidence_doubles_witness:
  "is_double 0.75
   \<and> binary_classification_confidence [Finite 0.75] = [Finite 0.5]
   \<and> float_sub (Finite 1) (Finite 0.75) = Finite 0.25
   \<and> binary_classification_confidence [Finite 0.25] = [Finite 0.5]
   \<and> is_double 0.25 \<and> is_double 0.5
   \<and> \<bar>0.5 - 1 / 2\<bar> \<le> \<bar>0.25 - 1 / 2 :: real\<bar>
   \<and> binary_classification_confidence [Finite 0.5] = [Finite 0]
   \<and> float_ge (Finite 0.5) (Finite 0)
   \<and> [binary_classification_confidence [Finite 0.75, Finite 0.25] ! 1] = [Finite 0.5]"
proof -
  note inst = binary_classification_confidence_doubles [of "[Finite 0.75, Finite 0.25]"]
  have d: "is_double 0.75" "is_double 0.25" "is_double 0.5"
    by (simp_all add: double_eval)
  from d(1) have "is_double 0.75 \<and> 1 / 2 \<le> (0.75::real) \<and> (0.75::real) \<le> 1" by simp
  with inst have u: "binary_classification_confidence [Finite 0.75] = [Finite (2 * 0.75 - 1)]"
    and s: "float_sub (Finite 1) (Finite 0.75) = Finite (1 - 0.75)"
    and t: "binary_classification_confidence [float_sub (Finite 1) (Finite 0.75)]
       = binary_classification_confidence [Finite 0.75]"
    by blast+
  from u have 1: "binary_classification_confidence [Finite 0.75] = [Finite 0.5]" by simp
  from s have 2: "float_sub (Finite 1) (Finite 0.75) = Finite 0.25" by simp
  from t 1 2 have 3: "binary_classification_confidence [Finite 0.25] = [Finite 0.5]" by simp
  from d(3) have "is_double 0.5 \<and> 1 / 2 \<le> (0.5::real) \<and> (0.5::real) \<le> 1" by simp
  with inst have "binary_classification_confidence [Finite 0.5] = [Finite (2 * 0.5 - 1)]"
    by blast
  then have 4: "binary_classification_confidence [Finite 0.5] = [Finite 0]" by simp
  have 5: "\<bar>0.5 - 1 / 2\<bar> \<le> \<bar>0.25 - 1 / 2 :: real\<bar>" by simp
  with d 3 4 have "is_double 0.5 \<and> is_double 0.25 \<and> 0 \<le> (0.5::real) \<and> (0.5::real) \<le> 1
      \<and> 0 \<le> (0.25::real) \<and> (0.25::real) \<le> 1
      \<and> \<bar>0.5 - 1 / 2\<bar> \<le> \<bar>0.25 - 1 / 2 :: real\<bar>
      \<and> binary_classification_confidence [Finite 0.5] = [Finite 0]
      \<and> binary_classification_confidence [Finite 0.25] = [Finite 0.5]"
    by simp
  with inst have 6: "float_ge (Finite 0.5) (Finite 0)" by blast
  have "(1::nat) < length [Finite 0.75, Finite 0.25]" by simp
  with inst have "[binary_classification_confidence [Finite 0.75, Finite 0.25] ! 1]
      = binary_classification_confidence [[Finite 0.75, Finite 0.25] ! 1]"
    by blast
  with 3 have 7: "[binary_classification_confidence [Finite 0.75, Finite 0.25] ! 1]
      = [Finite 0.5]"
    by simp
  from d 1 2 3 4 5 6 7 show ?thesis by blast
qed

text \<open>
  The symmetry does not hold for every double below 0.5: with \<open>p\<close> the double written
  \<open>0.3\<close>, \<open>1 - p\<close> is rounded to the double \<open>0.7\<close>, whose confidence
  \<open>0.3999999999999999\<close> is just below the confidence \<open>0.4\<close> of \<open>p\<close>. Nor does the
  confidence grow strictly: \<open>2^-60\<close> is nearer to 0.5 than 0 is, and both get
  confidence 1.
\<close>

theorem symmetry_fails_in_double_arithmetic_counterexample:
  "is_double (round_to_double 0.3)
   \<and> 0 \<le> round_to_double 0.3 \<and> round_to_double 0.3 \<le> 1
   \<and> binary_classification_confidence [Finite (round_to_double 0.3)]
       = [Finite (3602879701896397 / 9007199254740992)]
   \<and> binary_classification_confidence [float_sub (Finite 1) (Finite (round_to_double 0.3))]
       = [Finite (3602879701896396 / 9007199254740992)]
   \<and> binary_classification_confidence [float_sub (Finite 1) (Finite (round_to_double 0.3))]
       \<noteq> binary_classification_confidence [Finite (round_to_double 0.3)]
   \<and> is_double (1 / 2 ^ 60) \<and> is_double 0
   \<and> \<bar>1 / 2 ^ 60 - 1 / 2\<bar> < \<bar>0 - 1 / 2 :: real\<bar>
   \<and> binary_classification_confidence [Finite (1 / 2 ^ 60)] = [Finite 1]
   \<and> binary_classification_confidence [Finite 0] = [Finite 1]"
  by (simp add: double_eval)

end
